theory Spec2Isabelle
  imports Complex_Main "HOL-Library.Multiset"
begin

section \<open>Account security: the user model\<close>

text \<open>
  The user schema and its methods (the USER MODEL part of \<^verbatim>\<open>src/models/RestrictedArea.js\<close>)
  and the login handler of \<^verbatim>\<open>src/routes/auth.js\<close>. Times are milliseconds since the epoch,
  as \<^verbatim>\<open>Date.now()\<close> returns them; the clock readings taken inside one call are one instant
  \<open>now\<close>, passed as an argument. An optional schema path is an \<open>option\<close>: \<open>None\<close> is
  \<^verbatim>\<open>undefined\<close>.
\<close>

text \<open>
  The schema declares \<^verbatim>\<open>emergencyContact: { name, phone, relationship }\<close>. The alert dispatcher
  reads the property \<^verbatim>\<open>phoneNumber\<close> of that object, which the schema does not declare: a
  document loaded from the store has it undefined (\<open>ec_phoneNumber = None\<close>); the field is
  kept here because the dispatcher's code reads it.
\<close>

record emergency_contact =
  ec_name :: "string option"
  ec_phone :: "string option"
  ec_relationship :: "string option"
  ec_phoneNumber :: "string option"

record user =
  uid :: string
  fullName :: string
  email :: string
  username :: string
  password :: string
  touristType :: string
  phoneNumber :: "string option"
  isPhoneVerified :: bool
  otpCode :: "string option"
  otpExpiry :: "int option"
  isActive :: bool
  loginAttempts :: nat
  lockUntil :: "int option"
  lastLogin :: "int option"
  emergencyContact :: "emergency_contact option"

text \<open>\<^verbatim>\<open>isLocked\<close>: \<^verbatim>\<open>!!(this.lockUntil && this.lockUntil > Date.now())\<close>.\<close>

definition isLocked :: "user \<Rightarrow> int \<Rightarrow> bool" where
  "isLocked u now = (case lockUntil u of None \<Rightarrow> False | Some l \<Rightarrow> l > now)"

text \<open>
  \<^verbatim>\<open>incLoginAttempts\<close>: an expired lock restarts the counter at 1 and removes the lock;
  otherwise the counter is incremented and, when it reaches 5 on an unlocked account, the
  lock is set two hours ahead. The method writes to the stored document, which every
  request reads afresh, so the model updates the record.
\<close>

definition incLoginAttempts :: "user \<Rightarrow> int \<Rightarrow> user" where
  "incLoginAttempts u now =
     (if (case lockUntil u of None \<Rightarrow> False | Some l \<Rightarrow> l < now)
      then u\<lparr>loginAttempts := 1, lockUntil := None\<rparr>
      else if loginAttempts u + 1 \<ge> 5 \<and> \<not> isLocked u now
      then u\<lparr>loginAttempts := loginAttempts u + 1,
             lockUntil := Some (now + 2 * 60 * 60 * 1000)\<rparr>
      else u\<lparr>loginAttempts := loginAttempts u + 1\<rparr>)"

text \<open>
  \<^verbatim>\<open>resetLoginAttempts\<close> unsets both paths; an unset \<^verbatim>\<open>loginAttempts\<close> reads back as the
  schema default 0.
\<close>

definition resetLoginAttempts :: "user \<Rightarrow> user" where
  "resetLoginAttempts u = u\<lparr>loginAttempts := 0, lockUntil := None\<rparr>"

text \<open>
  \<^verbatim>\<open>comparePassword\<close> delegates to \<^verbatim>\<open>bcrypt.compare(candidate, this.password)\<close>; the
  library's comparison is the parameter \<open>cmp\<close>.
\<close>

definition comparePassword :: "(string \<Rightarrow> string \<Rightarrow> bool) \<Rightarrow> user \<Rightarrow> string \<Rightarrow> bool" where
  "comparePassword cmp u candidatePassword = cmp candidatePassword (password u)"

subsection \<open>Decimal rendering of a number\<close>

text \<open>\<^verbatim>\<open>Number.prototype.toString\<close> on an integer value: its decimal digits, no padding.\<close>

definition digitChar :: "nat \<Rightarrow> char" where
  "digitChar d = ''0123456789'' ! d"

fun digits :: "nat \<Rightarrow> string" where
  "digits n = (if n < 10 then [digitChar n] else digits (n div 10) @ [digitChar (n mod 10)])"

declare digits.simps [simp del]

definition toString :: "int \<Rightarrow> string" where
  "toString i = (if i < 0 then CHR ''-'' # digits (nat (- i)) else digits (nat i))"

subsection \<open>Double-precision arithmetic\<close>

text \<open>
  A JavaScript number is an IEEE 754 double: a product or a sum is the exact result rounded
  to the nearest double, ties to the even significand. A double is modelled by the real
  number it denotes. \<open>bits n\<close> is the length of \<open>n\<close> in binary; \<open>binade x\<close> is the exponent
  \<open>e\<close> with \<open>2 ^ e \<le> x < 2 ^ (e + 1)\<close> of a positive \<open>x\<close>, not below -1022, the exponent of
  the subnormal numbers;
  \<open>ulp x\<close> is the distance between the doubles around \<open>x\<close> (53 significant bits).
  Overflow to infinity (magnitudes from \<open>2 ^ 1024\<close> on) is not modelled.
\<close>

fun bits :: "nat \<Rightarrow> nat" where
  "bits n = (if n = 0 then 0 else Suc (bits (n div 2)))"

declare bits.simps [simp del]

definition binade :: "real \<Rightarrow> int" where
  "binade x =
     max (- 1022)
       (if 1 \<le> x then int (bits (nat \<lfloor>x\<rfloor>)) - 1 else - int (bits (nat (\<lceil>1 / x\<rceil> - 1))))"

definition ulp :: "real \<Rightarrow> real" where
  "ulp x = 2 powi (binade x - 52)"

definition round_half_even :: "real \<Rightarrow> int" where
  "round_half_even q =
     (if q - of_int \<lfloor>q\<rfloor> < 1 / 2 then \<lfloor>q\<rfloor>
      else if 1 / 2 < q - of_int \<lfloor>q\<rfloor> then \<lfloor>q\<rfloor> + 1
      else if even \<lfloor>q\<rfloor> then \<lfloor>q\<rfloor> else \<lfloor>q\<rfloor> + 1)"

definition round_double :: "real \<Rightarrow> real" where
  "round_double x =
     (if x = 0 then 0
      else if x < 0 then - (of_int (round_half_even (- x / ulp (- x))) * ulp (- x))
      else of_int (round_half_even (x / ulp x)) * ulp x)"

text \<open>The operators \<^verbatim>\<open>*\<close> and \<^verbatim>\<open>+\<close> on numbers.\<close>

definition times_double :: "real \<Rightarrow> real \<Rightarrow> real" where
  "times_double a b = round_double (a * b)"

definition plus_double :: "real \<Rightarrow> real \<Rightarrow> real" where
  "plus_double a b = round_double (a + b)"

subsection \<open>One-time codes\<close>

text \<open>
  \<^verbatim>\<open>generateOTP\<close>: \<^verbatim>\<open>Math.floor(100000 + Math.random() * 900000).toString()\<close>, stored with
  \<^verbatim>\<open>otpExpiry = Date.now() + 10 * 60 * 1000\<close>. The draw of \<^verbatim>\<open>Math.random()\<close> is the
  argument \<open>r\<close>, a double with \<open>0 \<le> r < 1\<close>; the product and the sum are computed in
  doubles, and \<^verbatim>\<open>Math.floor\<close> of a double is exact. The method assigns to \<^verbatim>\<open>this\<close> and
  returns the code: the model returns both.
\<close>

definition generateOTP :: "real \<Rightarrow> int \<Rightarrow> user \<Rightarrow> string \<times> user" where
  "generateOTP r now u =
     (let otp = toString \<lfloor>plus_double 100000 (times_double r 900000)\<rfloor>
      in (otp, u\<lparr>otpCode := Some otp, otpExpiry := Some (now + 10 * 60 * 1000)\<rparr>))"

text \<open>
  \<^verbatim>\<open>verifyOTP\<close>: \<^verbatim>\<open>this.otpCode === otp && this.otpExpiry > Date.now()\<close>. The supplied
  value is a string or undefined; the method assigns nothing, so the user is returned as
  it was.
\<close>

definition verifyOTP :: "user \<Rightarrow> string option \<Rightarrow> int \<Rightarrow> bool \<times> user" where
  "verifyOTP u otp now =
     (otpCode u = otp \<and> (case otpExpiry u of None \<Rightarrow> False | Some e \<Rightarrow> e > now), u)"

subsection \<open>The login handler\<close>

text \<open>
  The users collection is a list of documents. \<^verbatim>\<open>User.findOne({ $or: [{ email: identifier },
  { username: identifier }], isActive: true })\<close> gives the first document that matches;
  a method's \<^verbatim>\<open>this.updateOne(...)\<close> rewrites the document with the method's own
  \<^verbatim>\<open>_id\<close>.
\<close>

definition findOne :: "user list \<Rightarrow> string \<Rightarrow> user option" where
  "findOne users identifier =
     find (\<lambda>u. (email u = identifier \<or> username u = identifier) \<and> isActive u) users"

definition updateOne :: "user list \<Rightarrow> string \<Rightarrow> user \<Rightarrow> user list" where
  "updateOne users i u' = map (\<lambda>v. if uid v = i then u' else v) users"

text \<open>
  \<^verbatim>\<open>loginValidation\<close>: \<^verbatim>\<open>body('identifier').notEmpty()\<close> and \<^verbatim>\<open>body('password').notEmpty()\<close>.
\<close>

definition loginValidation :: "string \<Rightarrow> string \<Rightarrow> bool" where
  "loginValidation identifier pw = (identifier \<noteq> [] \<and> pw \<noteq> [])"

text \<open>
  \<^verbatim>\<open>router.post('/login')\<close>: 400 when the validation fails; 401 when no active user
  matches the identifier; 423 when the user is locked; 401 after \<^verbatim>\<open>incLoginAttempts\<close> when
  the password is wrong; otherwise the success response. The update the handler defers
  with \<^verbatim>\<open>setImmediate\<close> (\<^verbatim>\<open>resetLoginAttempts\<close>, then \<^verbatim>\<open>lastLogin\<close> and \<^verbatim>\<open>save\<close>) is
  applied to the returned collection.
\<close>

datatype login_response =
  Validation_failed_400 | Invalid_credentials_401 | Account_locked_423 | Login_successful

definition login ::
  "(string \<Rightarrow> string \<Rightarrow> bool) \<Rightarrow> int \<Rightarrow> user list \<Rightarrow> string \<Rightarrow> string \<Rightarrow> login_response \<times> user list"
where
  "login cmp now users identifier pw =
     (if \<not> loginValidation identifier pw then (Validation_failed_400, users)
      else
        (case findOne users identifier of
           None \<Rightarrow> (Invalid_credentials_401, users)
         | Some u \<Rightarrow>
             if isLocked u now then (Account_locked_423, users)
             else if \<not> comparePassword cmp u pw
             then (Invalid_credentials_401, updateOne users (uid u) (incLoginAttempts u now))
             else (Login_successful,
                   updateOne users (uid u) ((resetLoginAttempts u)\<lparr>lastLogin := Some now\<rparr>))))"

text \<open>
  A sequence of login requests, each with its time, identifier and password, against the
  collection.
\<close>

fun logins ::
  "(string \<Rightarrow> string \<Rightarrow> bool) \<Rightarrow> user list \<Rightarrow> (int \<times> string \<times> string) list \<Rightarrow> login_response list \<times> user list"
where
  "logins cmp users [] = ([], users)"
| "logins cmp users ((now, identifier, pw) # rest) =
     (case login cmp now users identifier pw of (r, users') \<Rightarrow>
        (case logins cmp users' rest of (rs, users'') \<Rightarrow> (r # rs, users'')))"

section \<open>Emergency alerts: the SOS route\<close>

text \<open>
  The SOS LOG MODEL (\<^verbatim>\<open>src/unnamed/part_000\<close>) and the SOS routes
  (\<^verbatim>\<open>src/unnamed/part_001\<close>). What the handler does in time is a trace of events:
  the record's persistence, every call of the SMS gateway, every two-second timer, and the
  response.
\<close>

subsection \<open>Request values\<close>

text \<open>
  A field of the JSON request body, as far as its truthiness goes: \<^verbatim>\<open>undefined\<close> (absent),
  \<^verbatim>\<open>null\<close>, a boolean, a number, a string, or an object or array (kept as its text).
\<close>

datatype json = JUndefined | JNull | JBool bool | JNum int | JStr string | JObj string

fun truthy :: "json \<Rightarrow> bool" where
  "truthy JUndefined = False"
| "truthy JNull = False"
| "truthy (JBool b) = b"
| "truthy (JNum n) = (n \<noteq> 0)"
| "truthy (JStr s) = (s \<noteq> [])"
| "truthy (JObj s) = True"

text \<open>A string-valued property that may be absent: truthy when present and non-empty.\<close>

definition truthy_str :: "string option \<Rightarrow> bool" where
  "truthy_str s = (case s of None \<Rightarrow> False | Some p \<Rightarrow> p \<noteq> [])"

text \<open>
  The location of the request body; \<open>latitude\<close> and \<open>longitude\<close> hold the text that the
  template literal of the message interpolates.
\<close>

record location =
  latitude :: string
  longitude :: string

record trigger_body =
  body_location :: "location option"
  body_timestamp :: json

subsection \<open>The alert record\<close>

record user_info =
  ui_fullName :: string
  ui_email :: string
  ui_phoneNumber :: "string option"
  ui_touristType :: string
  ui_username :: string

text \<open>
  The trigger time of a record: the value the client sent (cast by the schema to a date),
  or the server's clock.
\<close>

datatype trigger_time = Client_value json | Server_now int

record sos_log =
  sos_id :: string
  userId :: string
  userInfo :: user_info
  sos_location :: "location option"
  timestamp :: trigger_time
  status :: string
  alertType :: string
  emergencyContacts :: "emergency_contact list"

text \<open>\<^verbatim>\<open>new SOSLog({...})\<close> in the trigger handler; \<open>new_id\<close> is the identifier the document gets.\<close>

definition new_SOSLog :: "int \<Rightarrow> string \<Rightarrow> user \<Rightarrow> trigger_body \<Rightarrow> sos_log" where
  "new_SOSLog now new_id usr body =
     \<lparr>sos_id = new_id,
      userId = uid usr,
      userInfo = \<lparr>ui_fullName = fullName usr, ui_email = email usr,
                  ui_phoneNumber = phoneNumber usr, ui_touristType = touristType usr,
                  ui_username = username usr\<rparr>,
      sos_location = body_location body,
      timestamp = (if truthy (body_timestamp body) then Client_value (body_timestamp body)
                   else Server_now now),
      status = ''active'',
      alertType = ''emergency'',
      emergencyContacts = (case emergencyContact usr of None \<Rightarrow> [] | Some ec \<Rightarrow> [ec])\<rparr>"

subsection \<open>The SMS gateway\<close>

text \<open>
  The process environment, and one message as \<^verbatim>\<open>client.messages.create\<close> receives it. The
  Twilio library and the network behind it are the parameter \<open>tw\<close> of type \<open>twilio\<close>: given
  the credentials the client was constructed with, the burst (by its label), the attempt and
  the message, it tells whether the call returns a message SID or throws.
\<close>

record env =
  TWILIO_ACCOUNT_SID :: "string option"
  TWILIO_AUTH_TOKEN :: "string option"
  TWILIO_PHONE_NUMBER :: "string option"

record sms =
  sms_body :: string
  sms_from :: "string option"
  sms_to :: "string option"

datatype gateway_result = Sid string | Throws string

type_synonym twilio =
  "string option \<Rightarrow> string option \<Rightarrow> string \<Rightarrow> nat \<Rightarrow> sms \<Rightarrow> gateway_result"

text \<open>
  \<^verbatim>\<open>const client = twilio(process.env.TWILIO_ACCOUNT_SID, process.env.TWILIO_AUTH_TOKEN)\<close>:
  constructed when the module loads, whatever the environment holds.
\<close>

definition client :: "twilio \<Rightarrow> env \<Rightarrow> string \<Rightarrow> nat \<Rightarrow> sms \<Rightarrow> gateway_result" where
  "client tw e = tw (TWILIO_ACCOUNT_SID e) (TWILIO_AUTH_TOKEN e)"

subsection \<open>Events\<close>

datatype response = Success string trigger_time | Failure_500

datatype event =
    Persisted sos_log
  | Gateway_call string nat sms
  | Wait nat
  | Respond response

fun is_call :: "event \<Rightarrow> bool" where
  "is_call (Gateway_call mt i m) = True"
| "is_call e = False"

fun is_wait :: "event \<Rightarrow> bool" where
  "is_wait (Wait ms) = True"
| "is_wait e = False"

fun is_respond :: "event \<Rightarrow> bool" where
  "is_respond (Respond r) = True"
| "is_respond e = False"

text \<open>The destination addresses of the gateway calls of a trace, in order.\<close>

fun call_targets :: "event list \<Rightarrow> string option list" where
  "call_targets [] = []"
| "call_targets (Gateway_call mt i m # es) = sms_to m # call_targets es"
| "call_targets (e # es) = call_targets es"

text \<open>The gateway calls of the burst labelled \<open>mt\<close>.\<close>

fun calls_of :: "string \<Rightarrow> event list \<Rightarrow> (nat \<times> sms) list" where
  "calls_of mt [] = []"
| "calls_of mt (Gateway_call mt' i m # es) =
     (if mt' = mt then (i, m) # calls_of mt es else calls_of mt es)"
| "calls_of mt (e # es) = calls_of mt es"

text \<open>A trace in which a gateway call is issued after the response was sent.\<close>

fun sends_after_response :: "event list \<Rightarrow> bool" where
  "sends_after_response [] = False"
| "sends_after_response (e # es) =
     ((is_respond e \<and> list_ex is_call es) \<or> sends_after_response es)"

subsection \<open>The message and the addresses\<close>

definition alert_header :: string where
  "alert_header =
     [CHR 0xF0, CHR 0x9F, CHR 0x9A, CHR 0xA8] @ '' EMERGENCY ALERT '' @
     [CHR 0xF0, CHR 0x9F, CHR 0x9A, CHR 0xA8]"

definition baseMessage :: "location option \<Rightarrow> string \<Rightarrow> string" where
  "baseMessage loc currentTime =
     (case loc of
        Some l \<Rightarrow>
          alert_header @ [CHR 0x0A] @
          ''Location: https://maps.google.com/maps?q='' @ latitude l @ '','' @ longitude l @ [CHR 0x0A] @
          ''Time: '' @ currentTime @ [CHR 0x0A] @
          ''Please call back immediately!''
      | None \<Rightarrow>
          alert_header @ [CHR 0x0A] @
          ''Location: GPS unavailable'' @ [CHR 0x0A] @
          ''Time: '' @ currentTime @ [CHR 0x0A] @
          ''Please call back immediately!'')"

text \<open>The class \<^verbatim>\<open>\D\<close> of the regular expression: every character but the ten digits.\<close>

definition nonDigit :: "char \<Rightarrow> bool" where
  "nonDigit c = (c \<notin> set ''0123456789'')"

definition startsWith :: "string \<Rightarrow> string \<Rightarrow> bool" where
  "startsWith s pre = (take (length pre) s = pre)"

text \<open>
  \<^verbatim>\<open>formatPhoneNumber\<close>: null for a falsy argument; otherwise the non-digits are removed,
  \<^verbatim>\<open>'91'\<close> is put before exactly ten digits, and \<^verbatim>\<open>'+'\<close> before the whole unless it is
  there already.
\<close>

definition formatPhoneNumber :: "string option \<Rightarrow> string option" where
  "formatPhoneNumber phone =
     (if \<not> truthy_str phone then None
      else
        (let cleaned = filter (\<lambda>c. \<not> nonDigit c) (the phone);
             cleaned = (if length cleaned = 10 then ''91'' @ cleaned else cleaned);
             cleaned = (if \<not> startsWith cleaned ''+'' then ''+'' @ cleaned else cleaned)
         in Some cleaned))"

subsection \<open>The burst to one destination\<close>

text \<open>
  \<^verbatim>\<open>sendTripleSMS\<close>: the loop \<^verbatim>\<open>for (let i = 0; i < 3; i++)\<close>. The gateway call and the
  two-second timer after it (for \<open>i < 2\<close>) stand in the \<^verbatim>\<open>try\<close> block: when the call throws,
  the \<^verbatim>\<open>catch\<close> block logs and the loop goes on to the next \<open>i\<close>.
\<close>

function sendTripleSMS_loop ::
  "(string \<Rightarrow> nat \<Rightarrow> sms \<Rightarrow> gateway_result) \<Rightarrow> env \<Rightarrow> string \<Rightarrow> string option \<Rightarrow> string \<Rightarrow> nat \<Rightarrow> event list"
where
  "sendTripleSMS_loop cl e msg phone messageType i =
     (if i < 3
      then
        Gateway_call messageType i
          \<lparr>sms_body = msg, sms_from = TWILIO_PHONE_NUMBER e, sms_to = phone\<rparr> #
        (case cl messageType i \<lparr>sms_body = msg, sms_from = TWILIO_PHONE_NUMBER e, sms_to = phone\<rparr> of
           Sid s \<Rightarrow> (if i < 2 then [Wait 2000] else [])
         | Throws err \<Rightarrow> []) @
        sendTripleSMS_loop cl e msg phone messageType (i + 1)
      else [])"
  by pat_completeness auto
termination
  by (relation "measure (\<lambda>(cl, e, msg, phone, messageType, i). 3 - i)") auto

declare sendTripleSMS_loop.simps [simp del]

definition sendTripleSMS ::
  "(string \<Rightarrow> nat \<Rightarrow> sms \<Rightarrow> gateway_result) \<Rightarrow> env \<Rightarrow> string \<Rightarrow> string option \<Rightarrow> string \<Rightarrow> event list"
where
  "sendTripleSMS cl e msg phone messageType = sendTripleSMS_loop cl e msg phone messageType 0"

subsection \<open>The fan-out\<close>

text \<open>
  \<^verbatim>\<open>sendSOSAlerts\<close> starts one burst for the fixed police number, one for the emergency
  contact when \<^verbatim>\<open>user.emergencyContact && user.emergencyContact.phoneNumber\<close>, one for the
  user when \<^verbatim>\<open>user.phoneNumber\<close>, and awaits them all. The result is the list of the bursts'
  timelines, in the order they were started. Both numbers are strings where present (the
  schema's type), so nothing outside the bursts throws and the function's own \<^verbatim>\<open>catch\<close>
  block is not entered; inside a burst every gateway error is caught by the loop.
\<close>

definition policeNumber :: string where
  "policeNumber = ''+919876543210''"

definition sendSOSAlerts :: "twilio \<Rightarrow> env \<Rightarrow> user \<Rightarrow> location option \<Rightarrow> string \<Rightarrow> event list list" where
  "sendSOSAlerts tw e usr loc currentTime =
     (let msg = baseMessage loc currentTime in
        [sendTripleSMS (client tw e) e msg (Some policeNumber) ''Police''] @
        (if (case emergencyContact usr of None \<Rightarrow> False | Some ec \<Rightarrow> truthy_str (ec_phoneNumber ec))
         then [sendTripleSMS (client tw e) e msg
                 (formatPhoneNumber (ec_phoneNumber (the (emergencyContact usr))))
                 ''Emergency Contact'']
         else []) @
        (if truthy_str (phoneNumber usr)
         then [sendTripleSMS (client tw e) e msg (formatPhoneNumber (phoneNumber usr))
                 ''User Confirmation'']
         else []))"

text \<open>
  The bursts run concurrently: their events interleave in an order that the gateway's
  latencies decide. The schedule \<open>sched\<close> names, step by step, the timeline whose next event
  happens; when it is used up the remaining events follow timeline by timeline. What is
  proved about a trace below is proved for every schedule.
\<close>

fun interleave :: "nat list \<Rightarrow> 'a list list \<Rightarrow> 'a list" where
  "interleave [] qs = concat qs"
| "interleave (k # ks) qs =
     (if k < length qs
      then (case qs ! k of
              [] \<Rightarrow> interleave ks qs
            | x # xs \<Rightarrow> x # interleave ks (qs[k := xs]))
      else interleave ks qs)"

subsection \<open>The trigger handler\<close>

text \<open>
  \<^verbatim>\<open>router.post('/trigger')\<close>, after the authentication middleware has set \<^verbatim>\<open>req.user\<close>:
  the record is built and saved (\<^verbatim>\<open>await sosLog.save()\<close>), the alerts are sent
  (\<^verbatim>\<open>await sendSOSAlerts(...)\<close>), and the response is written. Whether the store accepts the
  document is the parameter \<open>db_accepts\<close>; a rejected save throws, and the handler's
  \<^verbatim>\<open>catch\<close> block answers 500. \<open>store\<close> is the collection of saved records.
\<close>

definition trigger ::
  "twilio \<Rightarrow> env \<Rightarrow> (sos_log \<Rightarrow> bool) \<Rightarrow> nat list \<Rightarrow> int \<Rightarrow> string \<Rightarrow> string \<Rightarrow>
     user \<Rightarrow> trigger_body \<Rightarrow> sos_log list \<Rightarrow> sos_log list \<times> event list"
where
  "trigger tw e db_accepts sched now currentTime new_id usr body store =
     (let sosLog = new_SOSLog now new_id usr body in
        if db_accepts sosLog
        then (store @ [sosLog],
              Persisted sosLog #
              interleave sched (sendSOSAlerts tw e usr (body_location body) currentTime) @
              [Respond (Success (sos_id sosLog) (timestamp sosLog))])
        else (store, [Respond Failure_500]))"

section \<open>Reading a decimal rendering back\<close>

definition digitVal :: "char \<Rightarrow> nat" where
  "digitVal c = of_char c - 48"

definition decimal :: "string \<Rightarrow> nat" where
  "decimal xs = foldl (\<lambda>a c. 10 * a + digitVal c) 0 xs"

section \<open>Sample inputs\<close>

definition sample_user :: user where
  "sample_user = \<lparr>uid = ''u1'', fullName = ''Asha Rao'', email = ''asha@example.com'',
     username = ''asha'', password = ''hash:secret'', touristType = ''indian'',
     phoneNumber = Some ''+919812345678'', isPhoneVerified = False, otpCode = None,
     otpExpiry = None, isActive = True, loginAttempts = 0, lockUntil = None,
     lastLogin = None, emergencyContact = None\<rparr>"

text \<open>A second user of the collection.\<close>

definition other_user :: user where
  "other_user = sample_user\<lparr>uid := ''u2'', email := ''ravi@example.com'', username := ''ravi''\<rparr>"

definition sample_cmp :: "string \<Rightarrow> string \<Rightarrow> bool" where
  "sample_cmp candidate hash = (hash = ''hash:'' @ candidate)"

definition sample_env :: env where
  "sample_env = \<lparr>TWILIO_ACCOUNT_SID = Some ''AC1'', TWILIO_AUTH_TOKEN = Some ''tok'',
     TWILIO_PHONE_NUMBER = Some ''+15550100''\<rparr>"

definition no_credentials :: env where
  "no_credentials = \<lparr>TWILIO_ACCOUNT_SID = None, TWILIO_AUTH_TOKEN = None,
     TWILIO_PHONE_NUMBER = None\<rparr>"

text \<open>A gateway that delivers every message, one that rejects every call, and one that
  rejects only the first attempt of each burst.\<close>

definition tw_ok :: twilio where
  "tw_ok sid token mt i m = Sid ''SM1''"

definition tw_down :: twilio where
  "tw_down sid token mt i m = Throws ''gateway unavailable''"

definition tw_first_fails :: twilio where
  "tw_first_fails sid token mt i m = (if i = 0 then Throws ''timeout'' else Sid ''SM1'')"

definition sample_body :: trigger_body where
  "sample_body = \<lparr>body_location = None, body_timestamp = JStr ''2020-01-01T00:00:00.000Z''\<rparr>"



definition sample_time :: string where
  "sample_time = ''10:15:30 am''"

definition accept_all :: "sos_log \<Rightarrow> bool" where
  "accept_all l = True"

definition sample_log :: sos_log where
  "sample_log =
     \<lparr>sos_id = ''id1'', userId = ''u1'',
      userInfo = \<lparr>ui_fullName = ''Asha Rao'', ui_email = ''asha@example.com'',
                  ui_phoneNumber = Some ''+919812345678'', ui_touristType = ''indian'',
                  ui_username = ''asha''\<rparr>,
      sos_location = None,
      timestamp = Client_value (JStr ''2020-01-01T00:00:00.000Z''),
      status = ''active'', alertType = ''emergency'', emergencyContacts = []\<rparr>"

text \<open>The message of the sample alert to one destination, sent from the number \<open>sender\<close>.\<close>

definition sample_sms :: "string option \<Rightarrow> string \<Rightarrow> sms" where
  "sample_sms sender dest =
     \<lparr>sms_body = baseMessage None sample_time, sms_from = sender, sms_to = Some dest\<rparr>"

section \<open>The lockout state machine\<close>

lemma updateOne_uids: "uid u' = i \<Longrightarrow> map uid (updateOne users i u') = map uid users"
  by (induction users) (auto simp: updateOne_def)

lemma updateOne_twice:
  "uid u' = i \<Longrightarrow> updateOne (updateOne users i u') i u'' = updateOne users i u''"
  by (induction users) (auto simp: updateOne_def)

lemma findOne_updateOne:
  assumes "distinct (map uid users)" "findOne users identifier = Some u"
    and "uid u' = uid u" "email u' = email u" "username u' = username u" "isActive u' = isActive u"
  shows "findOne (updateOne users (uid u) u') identifier = Some u'"
  using assms(1,2)
proof (induction users)
  case Nil
  then show ?case by (simp add: findOne_def)
next
  case (Cons v vs)
  show ?case
  proof (cases "(email v = identifier \<or> username v = identifier) \<and> isActive v")
    case True
    with Cons.prems(2) have "v = u" by (simp add: findOne_def)
    with True assms(3-6) show ?thesis by (simp add: findOne_def updateOne_def)
  next
    case False
    with Cons.prems(2) have f: "findOne vs identifier = Some u" by (simp add: findOne_def)
    then have "u \<in> set vs" by (auto simp: findOne_def find_Some_iff)
    with Cons.prems(1) have "uid v \<noteq> uid u" by auto
    moreover from Cons.prems(1) have "distinct (map uid vs)" by simp
    ultimately show ?thesis
      using False Cons.IH f by (auto simp: findOne_def updateOne_def)
  qed
qed

lemma findOne_props:
  "findOne users identifier = Some u \<Longrightarrow> (email u = identifier \<or> username u = identifier) \<and> isActive u"
  by (auto simp: findOne_def find_Some_iff)

lemma incLoginAttempts_keeps:
  "uid (incLoginAttempts u t) = uid u" "email (incLoginAttempts u t) = email u"
  "username (incLoginAttempts u t) = username u" "isActive (incLoginAttempts u t) = isActive u"
  "password (incLoginAttempts u t) = password u"
  by (simp_all add: incLoginAttempts_def)

lemma incLoginAttempts_unlocked:
  "lockUntil u = None \<Longrightarrow>
     incLoginAttempts u t =
       (if 5 \<le> loginAttempts u + 1
        then u\<lparr>loginAttempts := loginAttempts u + 1, lockUntil := Some (t + 7200000)\<rparr>
        else u\<lparr>loginAttempts := loginAttempts u + 1\<rparr>)"
  by (simp add: incLoginAttempts_def isLocked_def)

lemma first_failure:
  assumes "(lockUntil u = None \<and> loginAttempts u = 0) \<or> (\<exists>l. lockUntil u = Some l \<and> l < t)"
  shows "\<not> isLocked u t" "lockUntil (incLoginAttempts u t) = None"
    "loginAttempts (incLoginAttempts u t) = 1"
  using assms by (auto simp: incLoginAttempts_def isLocked_def)

lemma next_failure:
  assumes "lockUntil u = None"
  shows "\<not> isLocked u t"
    "loginAttempts (incLoginAttempts u t) = loginAttempts u + 1"
    "loginAttempts u + 1 < 5 \<Longrightarrow> lockUntil (incLoginAttempts u t) = None"
    "5 \<le> loginAttempts u + 1 \<Longrightarrow> lockUntil (incLoginAttempts u t) = Some (t + 7200000)"
  using assms by (simp_all add: isLocked_def incLoginAttempts_unlocked)

text \<open>One counted failure: the answer, the new collection, and that the identity is found again.\<close>

lemma failed_login:
  assumes "distinct (map uid users)" "findOne users identifier = Some u"
    and "identifier \<noteq> []" "pw \<noteq> []" "\<not> isLocked u t" "\<not> cmp pw (password u)"
  shows "login cmp t users identifier pw =
           (Invalid_credentials_401, updateOne users (uid u) (incLoginAttempts u t))"
  using assms by (simp add: login_def loginValidation_def comparePassword_def)

lemma locked_login:
  assumes "findOne users identifier = Some u" "identifier \<noteq> []" "pw \<noteq> []"
    and "lockUntil u = Some l" "t < l"
  shows "login cmp t users identifier pw = (Account_locked_423, users)"
  using assms by (simp add: login_def loginValidation_def isLocked_def)


text \<open>Requests the handler turns away before the lock check count nothing.\<close>

lemma login_early_returns:
  "login cmp t users identifier [] = (Validation_failed_400, users)"
  "login cmp t users [] pw = (Validation_failed_400, users)"
  "findOne users identifier = None \<Longrightarrow> pw \<noteq> [] \<Longrightarrow> identifier \<noteq> [] \<Longrightarrow>
     login cmp t users identifier pw = (Invalid_credentials_401, users)"
  "\<not> isActive u \<Longrightarrow> pw \<noteq> [] \<Longrightarrow> identifier \<noteq> [] \<Longrightarrow>
     login cmp t [u] identifier pw = (Invalid_credentials_401, [u])"
  by (simp_all add: login_def loginValidation_def findOne_def)

text \<open>
  Claim C2. The lockout state machine. Take an active identity of the collection, found by
  each identifier used, with no failures counted and no lock, or with a lock that has
  expired. After five consecutive login requests that pass validation and carry a wrong
  password, at any times \<open>t1\<close> to \<open>t5\<close>, each answered 401, the counter is 5 and the
  lock-expiry is \<open>t5\<close> plus two hours. From then on a request for this identity before the
  lock-expiry is answered 423 whatever the password, also the correct one, and leaves the
  collection as it is (counter and lock-expiry included); a request at or after the
  lock-expiry is not answered 423, and succeeds with the correct password. The lock state
  of any user at any time is computed from the lock-expiry and that time alone.
\<close>

theorem lockout_after_five_failures:
  assumes store: "distinct (map uid users)"
    and found: "findOne users i1 = Some u" "findOne users i2 = Some u" "findOne users i3 = Some u"
      "findOne users i4 = Some u" "findOne users i5 = Some u"
    and valid: "i1 \<noteq> [] \<and> p1 \<noteq> []" "i2 \<noteq> [] \<and> p2 \<noteq> []" "i3 \<noteq> [] \<and> p3 \<noteq> []"
      "i4 \<noteq> [] \<and> p4 \<noteq> []" "i5 \<noteq> [] \<and> p5 \<noteq> []"
    and start: "(lockUntil u = None \<and> loginAttempts u = 0) \<or> (\<exists>l. lockUntil u = Some l \<and> l < t1)"
    and wrong: "\<not> cmp p1 (password u)" "\<not> cmp p2 (password u)" "\<not> cmp p3 (password u)"
      "\<not> cmp p4 (password u)" "\<not> cmp p5 (password u)"
  shows "(\<exists>u5 users5.
            logins cmp users [(t1, i1, p1), (t2, i2, p2), (t3, i3, p3), (t4, i4, p4), (t5, i5, p5)]
              = (replicate 5 Invalid_credentials_401, users5)
          \<and> users5 = updateOne users (uid u) u5
          \<and> findOne users5 i1 = Some u5
          \<and> loginAttempts u5 = 5
          \<and> lockUntil u5 = Some (t5 + 2 * 60 * 60 * 1000)
          \<and> password u5 = password u
          \<and> (\<forall>t i pw. t < t5 + 2 * 60 * 60 * 1000 \<and> i \<noteq> [] \<and> pw \<noteq> [] \<and> findOne users5 i = Some u5
                \<longrightarrow> login cmp t users5 i pw = (Account_locked_423, users5))
          \<and> (\<forall>t. isLocked u5 t \<longleftrightarrow> \<not> t5 + 2 * 60 * 60 * 1000 \<le> t)
          \<and> (\<forall>t i pw. t5 + 2 * 60 * 60 * 1000 \<le> t \<and> i \<noteq> [] \<and> pw \<noteq> [] \<and> findOne users5 i = Some u5
                \<longrightarrow> fst (login cmp t users5 i pw) =
                      (if cmp pw (password u) then Login_successful else Invalid_credentials_401)))
       \<and> (\<forall>v t. isLocked v t \<longleftrightarrow> (\<exists>l. lockUntil v = Some l \<and> t < l))"
proof -
  define i where "i = uid u"
  define u1 where "u1 = incLoginAttempts u t1"
  define u2 where "u2 = incLoginAttempts u1 t2"
  define u3 where "u3 = incLoginAttempts u2 t3"
  define u4 where "u4 = incLoginAttempts u3 t4"
  define u5 where "u5 = incLoginAttempts u4 t5"
  define s1 where "s1 = updateOne users i u1"
  define s2 where "s2 = updateOne users i u2"
  define s3 where "s3 = updateOne users i u3"
  define s4 where "s4 = updateOne users i u4"
  define s5 where "s5 = updateOne users i u5"
  have ids: "uid u1 = i" "uid u2 = i" "uid u3 = i" "uid u4 = i" "uid u5 = i"
    by (simp_all add: u1_def u2_def u3_def u4_def u5_def i_def incLoginAttempts_keeps)
  have pws: "password u1 = password u" "password u2 = password u" "password u3 = password u"
    "password u4 = password u" "password u5 = password u"
    by (simp_all add: u1_def u2_def u3_def u4_def u5_def incLoginAttempts_keeps)
  have keep: "findOne (updateOne users i v) j = Some v"
    if "findOne users j = Some u" "uid v = i" "email v = email u" "username v = username u"
      "isActive v = isActive u" for v j
    using findOne_updateOne[OF store that(1), of v] that by (simp add: i_def)
  have fields: "email u1 = email u \<and> username u1 = username u \<and> isActive u1 = isActive u"
    "email u2 = email u \<and> username u2 = username u \<and> isActive u2 = isActive u"
    "email u3 = email u \<and> username u3 = username u \<and> isActive u3 = isActive u"
    "email u4 = email u \<and> username u4 = username u \<and> isActive u4 = isActive u"
    "email u5 = email u \<and> username u5 = username u \<and> isActive u5 = isActive u"
    by (simp_all add: u1_def u2_def u3_def u4_def u5_def incLoginAttempts_keeps)
  have d: "distinct (map uid s1)" "distinct (map uid s2)" "distinct (map uid s3)"
    "distinct (map uid s4)" "distinct (map uid s5)"
    using store ids by (simp_all add: s1_def s2_def s3_def s4_def s5_def updateOne_uids)
  have f1: "findOne s1 j = Some u1" if "findOne users j = Some u" for j
    unfolding s1_def using that ids(1) fields(1) by (intro keep) simp_all
  have f2: "findOne s2 j = Some u2" if "findOne users j = Some u" for j
    unfolding s2_def using that ids(2) fields(2) by (intro keep) simp_all
  have f3: "findOne s3 j = Some u3" if "findOne users j = Some u" for j
    unfolding s3_def using that ids(3) fields(3) by (intro keep) simp_all
  have f4: "findOne s4 j = Some u4" if "findOne users j = Some u" for j
    unfolding s4_def using that ids(4) fields(4) by (intro keep) simp_all
  have f5: "findOne s5 j = Some u5" if "findOne users j = Some u" for j
    unfolding s5_def using that ids(5) fields(5) by (intro keep) simp_all
  note ff = first_failure[OF start]
  have st1: "lockUntil u1 = None" "loginAttempts u1 = 1" using ff by (simp_all add: u1_def)
  have st2: "lockUntil u2 = None" "loginAttempts u2 = 2"
    using next_failure[OF st1(1), of t2] st1(2) by (simp_all add: u2_def)
  have st3: "lockUntil u3 = None" "loginAttempts u3 = 3"
    using next_failure[OF st2(1), of t3] st2(2) by (simp_all add: u3_def)
  have st4: "lockUntil u4 = None" "loginAttempts u4 = 4"
    using next_failure[OF st3(1), of t4] st3(2) by (simp_all add: u4_def)
  have st5: "lockUntil u5 = Some (t5 + 7200000)" "loginAttempts u5 = 5"
    using next_failure[OF st4(1), of t5] st4(2) by (simp_all add: u5_def)
  have l1: "login cmp t1 users i1 p1 = (Invalid_credentials_401, s1)"
    unfolding s1_def u1_def i_def
    using store found(1) valid(1) ff(1) wrong(1) by (intro failed_login) simp_all
  have l2: "login cmp t2 s1 i2 p2 = (Invalid_credentials_401, s2)"
  proof -
    have "login cmp t2 s1 i2 p2 = (Invalid_credentials_401, updateOne s1 (uid u1) (incLoginAttempts u1 t2))"
      using d(1) f1[OF found(2)] valid(2) next_failure(1)[OF st1(1)] wrong(2) pws(1)
      by (intro failed_login) simp_all
    then show ?thesis by (simp add: s1_def s2_def u2_def ids updateOne_twice)
  qed
  have l3: "login cmp t3 s2 i3 p3 = (Invalid_credentials_401, s3)"
  proof -
    have "login cmp t3 s2 i3 p3 = (Invalid_credentials_401, updateOne s2 (uid u2) (incLoginAttempts u2 t3))"
      using d(2) f2[OF found(3)] valid(3) next_failure(1)[OF st2(1)] wrong(3) pws(2)
      by (intro failed_login) simp_all
    then show ?thesis by (simp add: s2_def s3_def u3_def ids updateOne_twice)
  qed
  have l4: "login cmp t4 s3 i4 p4 = (Invalid_credentials_401, s4)"
  proof -
    have "login cmp t4 s3 i4 p4 = (Invalid_credentials_401, updateOne s3 (uid u3) (incLoginAttempts u3 t4))"
      using d(3) f3[OF found(4)] valid(4) next_failure(1)[OF st3(1)] wrong(4) pws(3)
      by (intro failed_login) simp_all
    then show ?thesis by (simp add: s3_def s4_def u4_def ids updateOne_twice)
  qed
  have l5: "login cmp t5 s4 i5 p5 = (Invalid_credentials_401, s5)"
  proof -
    have "login cmp t5 s4 i5 p5 = (Invalid_credentials_401, updateOne s4 (uid u4) (incLoginAttempts u4 t5))"
      using d(4) f4[OF found(5)] valid(5) next_failure(1)[OF st4(1)] wrong(5) pws(4)
      by (intro failed_login) simp_all
    then show ?thesis by (simp add: s4_def s5_def u5_def ids updateOne_twice)
  qed
  have run: "logins cmp users [(t1, i1, p1), (t2, i2, p2), (t3, i3, p3), (t4, i4, p4), (t5, i5, p5)]
               = (replicate 5 Invalid_credentials_401, s5)"
    by (simp add: l1 l2 l3 l4 l5 numeral_eq_Suc)
  have locked: "\<forall>t j pw. t < t5 + 2 * 60 * 60 * 1000 \<and> j \<noteq> [] \<and> pw \<noteq> [] \<and> findOne s5 j = Some u5
                \<longrightarrow> login cmp t s5 j pw = (Account_locked_423, s5)"
    using st5(1) by (auto intro: locked_login)
  have iff: "\<forall>t. isLocked u5 t \<longleftrightarrow> \<not> t5 + 2 * 60 * 60 * 1000 \<le> t"
    using st5(1) by (auto simp: isLocked_def)
  have after: "\<forall>t j pw. t5 + 2 * 60 * 60 * 1000 \<le> t \<and> j \<noteq> [] \<and> pw \<noteq> [] \<and> findOne s5 j = Some u5
                \<longrightarrow> fst (login cmp t s5 j pw) =
                      (if cmp pw (password u) then Login_successful else Invalid_credentials_401)"
    using st5(1) pws(5)
    by (simp add: login_def loginValidation_def isLocked_def comparePassword_def)
  have general: "\<forall>v t. isLocked v t \<longleftrightarrow> (\<exists>l. lockUntil v = Some l \<and> t < l)"
    by (auto simp: isLocked_def split: option.splits)
  have "\<exists>u5 users5.
            logins cmp users [(t1, i1, p1), (t2, i2, p2), (t3, i3, p3), (t4, i4, p4), (t5, i5, p5)]
              = (replicate 5 Invalid_credentials_401, users5)
          \<and> users5 = updateOne users (uid u) u5
          \<and> findOne users5 i1 = Some u5
          \<and> loginAttempts u5 = 5
          \<and> lockUntil u5 = Some (t5 + 2 * 60 * 60 * 1000)
          \<and> password u5 = password u
          \<and> (\<forall>t i pw. t < t5 + 2 * 60 * 60 * 1000 \<and> i \<noteq> [] \<and> pw \<noteq> [] \<and> findOne users5 i = Some u5
                \<longrightarrow> login cmp t users5 i pw = (Account_locked_423, users5))
          \<and> (\<forall>t. isLocked u5 t \<longleftrightarrow> \<not> t5 + 2 * 60 * 60 * 1000 \<le> t)
          \<and> (\<forall>t i pw. t5 + 2 * 60 * 60 * 1000 \<le> t \<and> i \<noteq> [] \<and> pw \<noteq> [] \<and> findOne users5 i = Some u5
                \<longrightarrow> fst (login cmp t users5 i pw) =
                      (if cmp pw (password u) then Login_successful else Invalid_credentials_401))"
    using run f5[OF found(1)] st5 pws(5) locked iff after
    by (intro exI[of _ u5] exI[of _ s5]) (simp add: s5_def i_def)
  with general show ?thesis by blast
qed


text \<open>
  The sample user, second in the collection, addressed by username and by email: five wrong
  guesses one second apart lock the account until 7205000; the correct password is refused
  one millisecond before that and accepted at it.
\<close>

theorem lockout_after_five_failures_witness:
  "logins sample_cmp [other_user, sample_user]
      [(1000, ''asha'', ''a''), (2000, ''asha@example.com'', ''b''), (3000, ''asha'', ''c''),
       (4000, ''asha'', ''d''), (5000, ''asha'', ''e'')]
     = (replicate 5 Invalid_credentials_401,
        [other_user, sample_user\<lparr>loginAttempts := 5, lockUntil := Some 7205000\<rparr>])
   \<and> login sample_cmp 7204999
        [other_user, sample_user\<lparr>loginAttempts := 5, lockUntil := Some 7205000\<rparr>] ''asha'' ''secret''
     = (Account_locked_423,
        [other_user, sample_user\<lparr>loginAttempts := 5, lockUntil := Some 7205000\<rparr>])
   \<and> fst (login sample_cmp 7205000
        [other_user, sample_user\<lparr>loginAttempts := 5, lockUntil := Some 7205000\<rparr>] ''asha'' ''secret'')
     = Login_successful"
  using lockout_after_five_failures[where users = "[other_user, sample_user]" and u = sample_user
      and cmp = sample_cmp and ?i1.0 = "''asha''" and ?i2.0 = "''asha@example.com''"
      and ?i3.0 = "''asha''" and ?i4.0 = "''asha''" and ?i5.0 = "''asha''"
      and ?p1.0 = "''a''" and ?p2.0 = "''b''" and ?p3.0 = "''c''" and ?p4.0 = "''d''" and ?p5.0 = "''e''"
      and ?t1.0 = 1000 and ?t2.0 = 2000 and ?t3.0 = 3000 and ?t4.0 = 4000 and ?t5.0 = 5000]
  by (simp add: sample_user_def other_user_def sample_cmp_def login_def loginValidation_def
      findOne_def updateOne_def isLocked_def comparePassword_def incLoginAttempts_def
      resetLoginAttempts_def numeral_eq_Suc)

section \<open>One-time codes: generation and verification\<close>

lemma digitChar_nonzero: "0 < d \<Longrightarrow> d < 10 \<Longrightarrow> digitChar d \<noteq> CHR ''0''"
proof -
  assume "0 < d" "d < 10"
  then have "d \<in> {1,2,3,4,5,6,7,8,9}" by auto
  then show ?thesis by (auto simp: digitChar_def)
qed

lemma digits_nonempty: "digits n \<noteq> []"
  by (subst digits.simps) simp

lemma digits_hd: "0 < n \<Longrightarrow> hd (digits n) \<noteq> CHR ''0''"
proof (induction n rule: digits.induct)
  case (1 n)
  show ?case
  proof (cases "n < 10")
    case True
    with 1(2) show ?thesis by (subst digits.simps) (simp add: digitChar_nonzero)
  next
    case False
    then have "0 < n div 10" by simp
    with 1(1) False have "hd (digits (n div 10)) \<noteq> CHR ''0''" by simp
    with False show ?thesis by (subst digits.simps) (simp add: digits_nonempty)
  qed
qed

lemma digits_length: "0 < k \<Longrightarrow> 10 ^ (k - 1) \<le> n \<Longrightarrow> n < 10 ^ k \<Longrightarrow> length (digits n) = k"
proof (induction k arbitrary: n)
  case 0
  then show ?case by simp
next
  case (Suc k)
  show ?case
  proof (cases "k = 0")
    case True
    with Suc.prems show ?thesis by (subst digits.simps) simp
  next
    case False
    then have "(10::nat) ^ 1 \<le> 10 ^ k" by (intro power_increasing) auto
    with Suc.prems have ge: "10 \<le> n" by simp
    from False obtain j where j: "k = Suc j" by (cases k) auto
    from Suc.prems j have "10 ^ (k - 1) \<le> n div 10" "n div 10 < 10 ^ k"
      by (auto simp: less_mult_imp_div_less mult.commute)
    with Suc.IH[of "n div 10"] False have "length (digits (n div 10)) = k" by simp
    with ge show ?thesis by (subst digits.simps) simp
  qed
qed

lemma digitVal_digitChar: "d < 10 \<Longrightarrow> digitVal (digitChar d) = d"
proof -
  assume "d < 10"
  then have "d \<in> {0,1,2,3,4,5,6,7,8,9}" by auto
  then show ?thesis by (auto simp: digitChar_def digitVal_def)
qed

lemma decimal_digits: "decimal (digits n) = n"
proof (induction n rule: digits.induct)
  case (1 n)
  show ?case
  proof (cases "n < 10")
    case True
    then show ?thesis by (subst digits.simps) (simp add: decimal_def digitVal_digitChar)
  next
    case False
    with 1 have "decimal (digits (n div 10)) = n div 10" by simp
    with False show ?thesis
      by (subst digits.simps) (simp add: decimal_def digitVal_digitChar)
  qed
qed

lemma digits_inj: "digits m = digits n \<Longrightarrow> m = n"
  by (metis decimal_digits)

lemma digits_set: "set (digits n) \<subseteq> set ''0123456789''"
proof (induction n rule: digits.induct)
  case (1 n)
  have d: "digitChar d \<in> set ''0123456789''" if "d < 10" for d
  proof -
    from that have "d \<in> {0,1,2,3,4,5,6,7,8,9}" by auto
    then show ?thesis by (auto simp: digitChar_def)
  qed
  show ?case
  proof (cases "n < 10")
    case True
    then show ?thesis using d[of n] by (subst digits.simps) simp
  next
    case False
    with 1 have "set (digits (n div 10)) \<subseteq> set ''0123456789''" by simp
    with False d[of "n mod 10"] show ?thesis by (subst digits.simps) simp
  qed
qed


lemma digits_one [simp]: "digits (Suc 0) = ''1''"
  by (subst digits.simps) (simp add: digitChar_def)

lemma digits_numeral [simp]:
  "digits (numeral k) =
     (if (numeral k :: nat) < 10 then [digitChar (numeral k)]
      else digits (numeral k div 10) @ [digitChar (numeral k mod 10)])"
  by (subst digits.simps) simp

subsection \<open>Rounding to a double\<close>

lemma bits_numeral [simp]:
  "bits (numeral k) = Suc (bits (numeral k div 2))"
  by (subst bits.simps) simp
lemma bits_0 [simp]: "bits 0 = 0" by (subst bits.simps) simp
lemma bits_1 [simp]: "bits (Suc 0) = 1" by (subst bits.simps) (simp add: bits_0)


lemma bits_less: "n < 2 ^ k \<Longrightarrow> bits n \<le> k"
proof (induction k arbitrary: n)
  case 0
  then show ?case by (simp add: bits_0)
next
  case (Suc k)
  show ?case
  proof (cases "n = 0")
    case True
    then show ?thesis by (simp add: bits_0)
  next
    case False
    from Suc.prems have "n div 2 < 2 ^ k" by simp
    then have "bits (n div 2) \<le> k" by (rule Suc.IH)
    with False show ?thesis by (subst bits.simps) simp
  qed
qed

lemma bits_greater: "2 ^ k \<le> n \<Longrightarrow> k < bits n"
proof (induction k arbitrary: n)
  case 0
  then show ?case by (subst bits.simps) simp
next
  case (Suc k)
  then have "2 ^ k \<le> n div 2" by simp
  then have "k < bits (n div 2)" by (rule Suc.IH)
  moreover have "0 < (2::nat) ^ Suc k" by simp
  with Suc.prems have "n \<noteq> 0" by linarith
  ultimately show ?case by (subst bits.simps) simp
qed

lemma binade_lower: "- 1022 \<le> binade x"
  by (simp add: binade_def)

lemma recip_mono: "0 < (a::real) \<Longrightarrow> a \<le> b \<Longrightarrow> 1 / b \<le> 1 / a"
  by (simp add: field_simps)

lemma real_between_contra: "(x::real) < a \<Longrightarrow> a \<le> x \<Longrightarrow> False"
  by simp

lemma bits_bounds: "0 < n \<Longrightarrow> 2 ^ (bits n - 1) \<le> n \<and> n < 2 ^ bits n"
proof (induction n rule: bits.induct)
  case (1 n)
  show ?case
  proof (cases "n div 2 = 0")
    case True
    with 1(2) have "n = 1" by (cases n) auto
    then show ?thesis by (simp add: bits_1)
  next
    case False
    with 1 have ih: "2 ^ (bits (n div 2) - 1) \<le> n div 2" "n div 2 < 2 ^ bits (n div 2)" by simp_all
    from False have pos: "0 < bits (n div 2)" by (subst bits.simps) simp
    have b: "bits n = Suc (bits (n div 2))" using 1(2) by (subst bits.simps) simp
    from pos obtain j where j: "bits (n div 2) = Suc j" by (cases "bits (n div 2)") auto
    from ih show ?thesis by (simp add: b j) linarith
  qed
qed

text \<open>The binade of a positive normal number is the integer part of its binary logarithm.\<close>

lemma binade_correct:
  assumes "2 powi (- 1022) \<le> x"
  shows "2 powi (binade x) \<le> x \<and> x < 2 powi (binade x + 1)"
proof (cases "1 \<le> x")
  case True
  define n where "n = nat \<lfloor>x\<rfloor>"
  from True have n: "0 < n" "real n \<le> x" "x < real n + 1"
    by (simp_all add: n_def)
  from bits_bounds[OF n(1)] have b: "2 ^ (bits n - 1) \<le> n" "n < 2 ^ bits n" by simp_all
  from n(1) have pos: "0 < bits n" by (subst bits.simps) simp
  from True have bin: "binade x = int (bits n) - 1" by (simp add: binade_def n_def)
  from b(1) have "real (2 ^ (bits n - 1)) \<le> real n" by (simp only: of_nat_le_iff)
  then have "(2::real) ^ (bits n - 1) \<le> real n" by simp
  with n(2) have lo: "(2::real) ^ (bits n - 1) \<le> x" by linarith
  from b(2) have "n + 1 \<le> 2 ^ bits n" by simp
  then have "real (n + 1) \<le> real (2 ^ bits n)" by (simp only: of_nat_le_iff)
  then have "real n + 1 \<le> 2 ^ bits n" by simp
  with n(3) have hi: "x < 2 ^ bits n" by linarith
  from pos have e1: "(2::real) powi (int (bits n) - 1) = 2 ^ (bits n - 1)"
    by (simp add: power_int_def nat_diff_distrib')
  have e2: "(2::real) powi (int (bits n) - 1 + 1) = 2 ^ bits n" by (simp add: power_int_def)
  from lo hi show ?thesis by (simp only: bin e1 e2)
next
  case False
  then have x1: "x < 1" by simp
  have "(0::real) < 2 powi (- 1022)" by (rule zero_less_power_int) simp
  with assms have x0: "0 < x" by linarith
  define c where "c = \<lceil>1 / x\<rceil>"
  define n where "n = nat (c - 1)"
  from x0 x1 have "1 < 1 / x" by (simp only: less_divide_eq_1_pos)
  then have c2: "2 \<le> c" unfolding c_def by (simp add: le_ceiling_iff)
  have cb: "real_of_int c - 1 < 1 / x" "1 / x \<le> real_of_int c" unfolding c_def by linarith+
  from c2 have n: "0 < n" "real n = real_of_int c - 1" by (simp_all add: n_def)
  from bits_bounds[OF n(1)] have b: "2 ^ (bits n - 1) \<le> n" "n < 2 ^ bits n" by simp_all
  from n(1) have pos: "0 < bits n" by (subst bits.simps) simp
  from b(1) have "real (2 ^ (bits n - 1)) \<le> real n" by (simp only: of_nat_le_iff)
  then have "(2::real) ^ (bits n - 1) \<le> real n" by simp
  with n(2) cb(1) have lo: "(2::real) ^ (bits n - 1) < 1 / x" by linarith
  from b(2) have "n + 1 \<le> 2 ^ bits n" by simp
  then have "real (n + 1) \<le> real (2 ^ bits n)" by (simp only: of_nat_le_iff)
  then have "real n + 1 \<le> 2 ^ bits n" by simp
  with n(2) cb(2) have hi: "1 / x \<le> 2 ^ bits n" by linarith
  from hi x0 have h1: "1 / 2 ^ bits n \<le> x" by (simp add: field_simps)
  from lo x0 have h2: "x < 1 / 2 ^ (bits n - 1)" by (simp add: field_simps)
  have raw: "- int (bits n) \<ge> - 1022"
  proof (rule ccontr)
    assume "\<not> - int (bits n) \<ge> - 1022"
    then have "1022 \<le> bits n - 1" by simp
    then have "(2::real) ^ 1022 \<le> 2 ^ (bits n - 1)" by (rule power_increasing) simp
    moreover have "(0::real) < 2 ^ 1022" by (rule zero_less_power) simp
    ultimately have "1 / (2::real) ^ (bits n - 1) \<le> 1 / 2 ^ 1022" by (rule recip_mono[rotated])
    with h2 have "x < 1 / 2 ^ 1022" by (rule less_le_trans)
    moreover have "(2::real) powi (- 1022) = 1 / 2 ^ 1022"
      by (simp only: power_int_minus power_int_numeral inverse_eq_divide)
    ultimately have "x < 2 powi (- 1022)" by (simp only:)
    with assms show False by (rule real_between_contra[rotated])
  qed
  from False raw have bin: "binade x = - int (bits n)" by (simp add: binade_def n_def c_def)
  have e1: "(2::real) powi (- int (bits n)) = 1 / 2 ^ bits n"
    by (simp add: power_int_def power_divide)
  from pos have e2: "(2::real) powi (- int (bits n) + 1) = 1 / 2 ^ (bits n - 1)"
    by (cases "bits n") (simp_all add: power_int_def power_divide nat_diff_distrib')
  from h1 h2 show ?thesis by (simp only: bin e1 e2)
qed

lemma binade_upper:
  assumes "x < 2 ^ 53"
  shows "binade x \<le> 52"
proof (cases "1 \<le> x")
  case True
  with assms have "nat \<lfloor>x\<rfloor> < 2 ^ 53"
    by (simp add: floor_less_iff nat_less_iff)
  then have "bits (nat \<lfloor>x\<rfloor>) \<le> 53" by (rule bits_less)
  with True show ?thesis by (simp add: binade_def)
next
  case False
  then show ?thesis by (simp add: binade_def)
qed

lemma binade_19:
  assumes "2 ^ 19 \<le> x" "x < 2 ^ 20"
  shows "binade x = 19"
proof -
  from assms have "2 ^ 19 \<le> nat \<lfloor>x\<rfloor>" "nat \<lfloor>x\<rfloor> < 2 ^ 20"
    by (simp_all add: le_floor_iff floor_less_iff le_nat_iff nat_less_iff)
  then have "19 < bits (nat \<lfloor>x\<rfloor>)" "bits (nat \<lfloor>x\<rfloor>) \<le> 20"
    by (auto intro: bits_greater bits_less)
  then have "bits (nat \<lfloor>x\<rfloor>) = 20" by simp
  moreover from assms have "1 \<le> x" by simp
  ultimately show ?thesis by (simp add: binade_def)
qed

lemma binade_half:
  assumes "1 / 2 \<le> x" "x < 1"
  shows "binade x = - 1"
proof -
  from assms have "1 < 1 / x" "1 / x \<le> 2" by (simp_all add: field_simps)
  then have "\<lceil>1 / x\<rceil> = 2" by (simp add: ceiling_eq_iff)
  with assms show ?thesis by (simp add: binade_def)
qed

lemma round_half_even_bounds:
  "of_int \<lfloor>q\<rfloor> \<le> q" "\<lfloor>q\<rfloor> \<le> round_half_even q" "round_half_even q \<le> \<lfloor>q\<rfloor> + 1"
  by (simp_all add: round_half_even_def)

lemma round_half_even_ge: "of_int k \<le> q \<Longrightarrow> k \<le> round_half_even q"
proof -
  assume "of_int k \<le> q"
  then have "k \<le> \<lfloor>q\<rfloor>" by (simp add: le_floor_iff)
  with round_half_even_bounds(2)[of q] show ?thesis by simp
qed

lemma round_half_even_le: "q \<le> of_int k \<Longrightarrow> round_half_even q \<le> k"
proof (cases "q = of_int k")
  case True
  then show ?thesis by (simp add: round_half_even_def)
next
  case False
  assume "q \<le> of_int k"
  with False have "q < of_int k" by simp
  then have "\<lfloor>q\<rfloor> < k" by (simp add: floor_less_iff)
  with round_half_even_bounds(3)[of q] show ?thesis by simp
qed

lemma round_half_even_less: "q < of_int k - 1 / 2 \<Longrightarrow> round_half_even q \<le> k - 1"
proof -
  assume a: "q < of_int k - 1 / 2"
  then have "q < of_int k" by simp
  then have fl: "\<lfloor>q\<rfloor> \<le> k - 1" by (simp add: floor_less_iff)
  show ?thesis
  proof (cases "\<lfloor>q\<rfloor> = k - 1")
    case True
    with a have "q - of_int \<lfloor>q\<rfloor> < 1 / 2" by simp
    with True show ?thesis by (simp add: round_half_even_def)
  next
    case False
    with fl round_half_even_bounds(3)[of q] show ?thesis by simp
  qed
qed

text \<open>Below \<open>2 ^ 53\<close> the unit in the last place is one over a power of two.\<close>

lemma ulp_small:
  assumes "x < 2 ^ 53"
  shows "\<exists>m. ulp x = 1 / 2 ^ m"
proof -
  from binade_upper[OF assms] have "binade x - 52 \<le> 0" by simp
  then have "ulp x = 1 / 2 ^ nat (- (binade x - 52))"
    by (simp add: ulp_def power_int_def field_simps)
  then show ?thesis ..
qed

lemma round_double_int_le:
  assumes "0 < x" "x < 2 ^ 53" "of_int n \<le> x"
  shows "of_int n \<le> round_double x"
proof -
  from ulp_small[OF assms(2)] obtain m where m: "ulp x = 1 / 2 ^ m" ..
  have "of_int (n * 2 ^ m) \<le> x * 2 ^ m" using assms(3) by simp
  then have "n * 2 ^ m \<le> round_half_even (x * 2 ^ m)" by (rule round_half_even_ge)
  then have "of_int (n * 2 ^ m) \<le> (of_int (round_half_even (x * 2 ^ m)) :: real)"
    by (simp only: of_int_le_iff)
  then have "real_of_int n \<le> real_of_int (round_half_even (x * 2 ^ m)) / 2 ^ m"
    by (simp add: field_simps)
  with assms(1) m show ?thesis by (simp add: round_double_def)
qed

lemma round_double_le_int:
  assumes "0 < x" "x < 2 ^ 53" "x \<le> of_int n"
  shows "round_double x \<le> of_int n"
proof -
  from ulp_small[OF assms(2)] obtain m where m: "ulp x = 1 / 2 ^ m" ..
  have "x * 2 ^ m \<le> of_int (n * 2 ^ m)" using assms(3) by simp
  then have "round_half_even (x * 2 ^ m) \<le> n * 2 ^ m" by (rule round_half_even_le)
  then have "(of_int (round_half_even (x * 2 ^ m)) :: real) \<le> of_int (n * 2 ^ m)"
    by (simp only: of_int_le_iff)
  then have "real_of_int (round_half_even (x * 2 ^ m)) / 2 ^ m \<le> real_of_int n"
    by (simp add: field_simps)
  with assms(1) m show ?thesis by (simp add: round_double_def)
qed

lemma round_double_nonneg: "0 \<le> x \<Longrightarrow> 0 \<le> round_double x"
proof (cases "x = 0")
  case True
  then show ?thesis by (simp add: round_double_def)
next
  case False
  assume "0 \<le> x"
  with False have pos: "0 < x" by simp
  have u: "0 < ulp x" by (simp add: ulp_def)
  with pos have "of_int 0 \<le> x / ulp x" by simp
  then have "0 \<le> round_half_even (x / ulp x)" by (rule round_half_even_ge)
  with pos u show ?thesis by (simp add: round_double_def)
qed

lemma ulp_19: "2 ^ 19 \<le> x \<Longrightarrow> x < 2 ^ 20 \<Longrightarrow> ulp x = 1 / 2 ^ 33"
  by (simp add: ulp_def binade_19 power_int_def power_divide)

lemma ulp_half: "1 / 2 \<le> x \<Longrightarrow> x < 1 \<Longrightarrow> ulp x = 1 / 2 ^ 53"
  by (simp add: ulp_def binade_half power_int_def power_divide)

lemma double_below_one:
  assumes "round_double r = r" "0 \<le> r" "r < 1"
  shows "r \<le> 1 - 1 / 2 ^ 53"
proof (cases "r < 1 / 2")
  case True
  then show ?thesis by simp
next
  case False
  then have h: "1 / 2 \<le> r" by simp
  define K where "K = round_half_even (r * 2 ^ 53)"
  from h assms(3) have "round_double r = of_int K / 2 ^ 53"
    by (simp add: round_double_def ulp_half K_def)
  with assms(1) have r: "r = of_int K / 2 ^ 53" by simp
  with assms(3) have "real_of_int K < real_of_int (2 ^ 53)" by (simp add: field_simps)
  then have "K < 2 ^ 53" by (simp only: of_int_less_iff)
  then have "K \<le> 2 ^ 53 - 1" by simp
  then have "real_of_int K \<le> real_of_int (2 ^ 53 - 1)" by (simp only: of_int_le_iff)
  then have "real_of_int K \<le> 2 ^ 53 - 1" by simp
  then have "real_of_int K / 2 ^ 53 \<le> (2 ^ 53 - 1) / 2 ^ 53" by (simp add: divide_right_mono)
  with r show ?thesis by (simp add: field_simps)
qed

lemma product_range:
  assumes "0 \<le> r" "r \<le> 1 - 1 / 2 ^ 53"
  shows "0 \<le> times_double r 900000" "times_double r 900000 \<le> 900000 - 1 / 2 ^ 33"
proof -
  let ?p = "r * 900000"
  from assms have p: "0 \<le> ?p" "?p \<le> 900000 - 900000 / 2 ^ 53" by (simp_all add: field_simps)
  from p(1) show "0 \<le> times_double r 900000"
    unfolding times_double_def by (rule round_double_nonneg)
  show "times_double r 900000 \<le> 900000 - 1 / 2 ^ 33"
  proof (cases "?p < 2 ^ 19")
    case True
    show ?thesis
    proof (cases "?p = 0")
      case True
      then show ?thesis by (simp add: times_double_def round_double_def)
    next
      case False
      with p(1) have "0 < ?p" by simp
      moreover from True have "?p < 2 ^ 53" by simp
      moreover from True have "?p \<le> of_int 524288" by simp
      ultimately have "round_double ?p \<le> of_int 524288" by (rule round_double_le_int)
      then show ?thesis by (simp add: times_double_def)
    qed
  next
    case False
    then have lo: "2 ^ 19 \<le> ?p" by simp
    from p(2) have hi: "?p < 2 ^ 20" by simp
    have "?p * 2 ^ 33 \<le> (900000 - 900000 / 2 ^ 53) * 2 ^ 33"
      using p(2) by (simp only: mult_le_cancel_right) simp
    also have "\<dots> < of_int (900000 * 2 ^ 33) - 1 / 2" by simp
    finally have "round_half_even (?p * 2 ^ 33) \<le> 900000 * 2 ^ 33 - 1"
      by (rule round_half_even_less)
    then have "real_of_int (round_half_even (?p * 2 ^ 33)) \<le> real_of_int (900000 * 2 ^ 33 - 1)"
      by (simp only: of_int_le_iff)
    then have "real_of_int (round_half_even (?p * 2 ^ 33)) \<le> 900000 * 2 ^ 33 - 1"
      by simp
    then have "real_of_int (round_half_even (?p * 2 ^ 33)) / 2 ^ 33 \<le> (900000 * 2 ^ 33 - 1) / 2 ^ 33"
      by (simp add: divide_right_mono)
    moreover from lo have "0 < ?p" by simp
    ultimately show ?thesis
      using lo hi by (simp add: times_double_def round_double_def ulp_19)
  qed
qed

lemma sum_range:
  assumes "0 \<le> y" "y \<le> 900000 - 1 / 2 ^ 33"
  shows "100000 \<le> plus_double 100000 y" "plus_double 100000 y \<le> 1000000 - 1 / 2 ^ 33"
proof -
  let ?x = "100000 + y"
  from assms have x: "of_int 100000 \<le> ?x" "?x \<le> 1000000 - 1 / 2 ^ 33" "0 < ?x" "?x < 2 ^ 53"
    by simp_all
  from x(3) x(4) x(1) have "of_int 100000 \<le> round_double ?x" by (rule round_double_int_le)
  then show "100000 \<le> plus_double 100000 y" by (simp add: plus_double_def)
  show "plus_double 100000 y \<le> 1000000 - 1 / 2 ^ 33"
  proof (cases "?x < 2 ^ 19")
    case True
    then have "?x \<le> of_int 524288" by simp
    with x(3) x(4) have "round_double ?x \<le> of_int 524288" by (rule round_double_le_int)
    then show ?thesis by (simp add: plus_double_def)
  next
    case False
    then have lo: "2 ^ 19 \<le> ?x" by simp
    from x(2) have hi: "?x < 2 ^ 20" by simp
    have "?x * 2 ^ 33 \<le> (1000000 - 1 / 2 ^ 33) * 2 ^ 33"
      using x(2) by (simp only: mult_le_cancel_right) simp
    also have "\<dots> = of_int (1000000 * 2 ^ 33 - 1)" by simp
    finally have "round_half_even (?x * 2 ^ 33) \<le> 1000000 * 2 ^ 33 - 1"
      by (rule round_half_even_le)
    then have "real_of_int (round_half_even (?x * 2 ^ 33)) \<le> real_of_int (1000000 * 2 ^ 33 - 1)"
      by (simp only: of_int_le_iff)
    then have "real_of_int (round_half_even (?x * 2 ^ 33)) \<le> 1000000 * 2 ^ 33 - 1"
      by simp
    then have "real_of_int (round_half_even (?x * 2 ^ 33)) / 2 ^ 33 \<le> (1000000 * 2 ^ 33 - 1) / 2 ^ 33"
      by (simp add: divide_right_mono)
    with x(3) lo hi show ?thesis
      by (simp add: plus_double_def round_double_def ulp_19)
  qed
qed

lemma otp_number_range:
  assumes "round_double r = r" "0 \<le> r" "r < 1"
  shows "100000 \<le> \<lfloor>plus_double 100000 (times_double r 900000)\<rfloor>"
    "\<lfloor>plus_double 100000 (times_double r 900000)\<rfloor> \<le> 999999"
proof -
  from double_below_one[OF assms] have "r \<le> 1 - 1 / 2 ^ 53" .
  from product_range[OF assms(2) this]
  have y: "0 \<le> times_double r 900000" "times_double r 900000 \<le> 900000 - 1 / 2 ^ 33" .
  from sum_range[OF y]
  have z: "100000 \<le> plus_double 100000 (times_double r 900000)"
    "plus_double 100000 (times_double r 900000) \<le> 1000000 - 1 / 2 ^ 33" .
  from z(1) show "100000 \<le> \<lfloor>plus_double 100000 (times_double r 900000)\<rfloor>"
    by (simp add: le_floor_iff)
  from z(2) have "plus_double 100000 (times_double r 900000) < 1000000" by simp
  then have "\<lfloor>plus_double 100000 (times_double r 900000)\<rfloor> < 1000000"
    by (simp add: floor_less_iff)
  then show "\<lfloor>plus_double 100000 (times_double r 900000)\<rfloor> \<le> 999999" by simp
qed

lemma round_half_even_error: "\<bar>real_of_int (round_half_even q) - q\<bar> \<le> 1 / 2"
proof -
  have "real_of_int \<lfloor>q\<rfloor> \<le> q" "q < real_of_int \<lfloor>q\<rfloor> + 1" by linarith+
  then show ?thesis by (auto simp: round_half_even_def)
qed

lemma round_half_even_of_int: "round_half_even (of_int j) = j"
  by (simp add: round_half_even_def)

lemma ulp_pos: "0 < ulp x"
  by (simp add: ulp_def)

lemma round_double_error:
  assumes "0 < x"
  shows "\<bar>round_double x - x\<bar> \<le> ulp x / 2"
proof -
  define u where "u = ulp x"
  define q where "q = x / u"
  define R where "R = real_of_int (round_half_even q)"
  have u: "0 < u" by (simp add: u_def ulp_pos)
  then have x: "q * u = x" by (simp add: q_def)
  have rd: "round_double x = R * u"
    using assms by (simp add: round_double_def R_def q_def u_def)
  have e: "R * u - x = (R - q) * u" by (simp only: left_diff_distrib x)
  have "\<bar>round_double x - x\<bar> = \<bar>(R - q) * u\<bar>" by (simp only: rd e)
  also have "\<dots> = \<bar>R - q\<bar> * \<bar>u\<bar>" by (rule abs_mult)
  also have "\<dots> = \<bar>R - q\<bar> * u" using u by simp
  also have "\<dots> \<le> 1 / 2 * u"
    using round_half_even_error[of q] u unfolding R_def by (simp only: mult_le_cancel_right) simp
  finally show ?thesis by (simp add: u_def)
qed

lemma ulp_below_2_20:
  assumes "x < 2 ^ 20"
  shows "ulp x \<le> 1 / 2 ^ 33"
proof -
  have "binade x \<le> 19"
  proof (cases "1 \<le> x")
    case True
    with assms have "nat \<lfloor>x\<rfloor> < 2 ^ 20" by (simp add: floor_less_iff nat_less_iff)
    then have "bits (nat \<lfloor>x\<rfloor>) \<le> 20" by (rule bits_less)
    with True show ?thesis by (simp add: binade_def)
  next
    case False
    then show ?thesis by (simp add: binade_def)
  qed
  then have "binade x - 52 \<le> - 33" by simp
  then have "(2::real) powi (binade x - 52) \<le> 2 powi (- 33)"
    by (intro power_int_increasing) simp_all
  then show ?thesis by (simp add: ulp_def power_int_def power_divide)
qed

lemma dyadic_is_double:
  assumes "0 \<le> k" "k < 2 ^ 53"
  shows "round_double (real_of_int k / 2 ^ 53) = real_of_int k / 2 ^ 53"
proof (cases "k = 0")
  case True
  then show ?thesis by (simp add: round_double_def)
next
  case False
  define x where "x = real_of_int k / 2 ^ 53"
  from False assms have pos: "0 < x" by (simp add: x_def)
  from assms have "real_of_int k < real_of_int (2 ^ 53)" by (simp only: of_int_less_iff)
  then have lt: "x < 1" by (simp add: x_def)
  from pos lt have "1 < 1 / x" by (simp only: less_divide_eq_1_pos)
  then have "1 < \<lceil>1 / x\<rceil>" by (simp only: less_ceiling_iff of_int_1)
  then have "2 ^ 0 \<le> nat (\<lceil>1 / x\<rceil> - 1)" by (simp only: power_0)
  then have "0 < bits (nat (\<lceil>1 / x\<rceil> - 1))" by (rule bits_greater)
  with lt have b: "binade x \<le> - 1" by (simp add: binade_def)
  define m where "m = nat (52 - binade x)"
  from b have m: "53 \<le> m" by (simp add: m_def)
  from b have "binade x - 52 \<le> 0" by simp
  then have u: "ulp x = 1 / 2 ^ m"
    by (simp add: ulp_def power_int_def m_def power_divide)
  from m obtain j where j: "m = 53 + j" by (metis le_Suc_ex)
  have "x / ulp x = x * 2 ^ m" by (simp add: u)
  also have "\<dots> = real_of_int k / 2 ^ 53 * 2 ^ (53 + j)" by (simp only: x_def j)
  also have "\<dots> = real_of_int k * 2 ^ j" by (simp add: power_add)
  also have "\<dots> = real_of_int (k * 2 ^ j)" by simp
  finally have q: "round_half_even (x / ulp x) = k * 2 ^ j"
    by (simp only: round_half_even_of_int)
  from pos have "round_double x = real_of_int (round_half_even (x / ulp x)) * ulp x"
    by (simp add: round_double_def)
  also have "\<dots> = real_of_int (k * 2 ^ j) * ulp x" by (simp only: q)
  also have "\<dots> = real_of_int (k * 2 ^ j) / 2 ^ (53 + j)" by (simp add: u j)
  also have "\<dots> = x" by (simp add: power_add x_def)
  finally show ?thesis by (simp only: x_def)
qed

lemma every_code_is_drawn:
  assumes "100000 \<le> c" "c \<le> 999999"
  shows "\<exists>r. round_double r = r \<and> 0 \<le> r \<and> r < 1
           \<and> \<lfloor>plus_double 100000 (times_double r 900000)\<rfloor> = c"
proof -
  define rho where "rho = (real_of_int c - 100000 + 1 / 2) / 900000"
  define k where "k = \<lfloor>rho * 2 ^ 53\<rfloor>"
  define r where "r = real_of_int k / 2 ^ 53"
  from assms have rho: "0 < rho" "rho < 1" by (simp_all add: rho_def)
  then have "0 \<le> rho * 2 ^ 53" "rho * 2 ^ 53 < 2 ^ 53" by simp_all
  then have k: "0 \<le> k" "k < 2 ^ 53" by (simp_all add: k_def floor_less_iff)
  have "real_of_int k \<le> rho * 2 ^ 53" "rho * 2 ^ 53 < real_of_int k + 1"
    unfolding k_def by linarith+
  then have r1: "r \<le> rho" "rho - 1 / 2 ^ 53 < r"
    by (simp_all add: r_def field_simps)
  from k have dbl: "round_double r = r" unfolding r_def by (rule dyadic_is_double)
  from k have r0: "0 \<le> r" by (simp add: r_def)
  from r1 rho have rlt: "r < 1" by simp
  let ?p = "r * 900000"
  from r1 have p: "?p \<le> real_of_int c - 100000 + 1 / 2"
    "real_of_int c - 100000 + 1 / 2 - 900000 / 2 ^ 53 < ?p"
    by (simp_all add: rho_def field_simps)
  have "(900000::real) / 2 ^ 53 \<le> 1 / 10" by simp
  with p assms have p0: "0 < ?p" and "?p < 1000000" by linarith+
  then have p20: "?p < 2 ^ 20" by simp
  define d :: real where "d = 1 / 10 ^ 10"
  have d: "1 / 2 ^ 34 \<le> d" "900000 / 2 ^ 53 \<le> d" "d \<le> 1 / 10" by (simp_all add: d_def)
  let ?y = "times_double r 900000"
  have "\<bar>?y - ?p\<bar> \<le> ulp ?p / 2" unfolding times_double_def using p0 by (rule round_double_error)
  moreover from ulp_below_2_20[OF p20] have "ulp ?p / 2 \<le> 1 / 2 ^ 34" by simp
  ultimately have "\<bar>?y - ?p\<bar> \<le> 1 / 2 ^ 34" by (rule order_trans)
  with d(1) have ey: "?y - ?p \<le> d" "?p - ?y \<le> d" by linarith+
  let ?x = "100000 + ?y"
  have c: "100000 \<le> real_of_int c" "real_of_int c \<le> 999999" using assms by simp_all
  from ey p d c have x0: "0 < ?x" and x20': "?x < 1000001" by linarith+
  then have x20: "?x < 2 ^ 20" by simp
  let ?z = "plus_double 100000 ?y"
  have "\<bar>?z - ?x\<bar> \<le> ulp ?x / 2" unfolding plus_double_def using x0 by (rule round_double_error)
  moreover from ulp_below_2_20[OF x20] have "ulp ?x / 2 \<le> 1 / 2 ^ 34" by simp
  ultimately have "\<bar>?z - ?x\<bar> \<le> 1 / 2 ^ 34" by (rule order_trans)
  with d(1) have ez: "?z - ?x \<le> d" "?x - ?z \<le> d" by linarith+
  from ey ez p d have "real_of_int c \<le> ?z" "?z < real_of_int c + 1" by linarith+
  then have "\<lfloor>?z\<rfloor> = c" by (simp only: floor_eq_iff)
  with dbl r0 rlt show ?thesis by blast
qed

subsection \<open>The generated code\<close>

lemma toString_nonneg: "0 \<le> i \<Longrightarrow> toString i = digits (nat i)"
  by (simp add: toString_def)

lemma toString_inj_nonneg: "0 \<le> i \<Longrightarrow> 0 \<le> j \<Longrightarrow> toString i = toString j \<Longrightarrow> i = j"
  using digits_inj[of "nat i" "nat j"] by (simp add: toString_nonneg)

lemma double_half: "round_double (1 / 2) = 1 / 2"
  by (simp add: round_double_def ulp_def binade_def round_half_even_def)

lemma otp_number_half: "\<lfloor>plus_double 100000 (times_double (1 / 2) 900000)\<rfloor> = 550000"
  by (simp add: plus_double_def times_double_def round_double_def ulp_def binade_def
      round_half_even_def)

text \<open>
  Rounding matters: at the draw 150119987579 / 2 ^ 52 the exact sum is below 100030, the
  sum of doubles is 100030, and the code is 100030.
\<close>

lemma otp_number_rounded_up:
  "\<lfloor>100000 + 150119987579 / 2 ^ 52 * 900000 :: real\<rfloor> = 100029
   \<and> round_double (150119987579 / 2 ^ 52) = 150119987579 / 2 ^ 52
   \<and> fst (generateOTP (150119987579 / 2 ^ 52) now u) = ''100030''"
  by (simp add: generateOTP_def Let_def toString_def digitChar_def plus_double_def
      times_double_def round_double_def ulp_def binade_def round_half_even_def)

text \<open>
  Claim C4, as amended. For every draw \<open>r\<close>, a double with \<open>0 \<le> r < 1\<close>, \<^verbatim>\<open>generateOTP\<close>
  returns the decimal rendering of a whole number between 100000 and 999999: six digits,
  the first never \<open>0\<close>, so nothing is padded. It stores that code with the expiry \<open>now\<close>
  plus ten minutes, whatever code and expiry were stored before, changes nothing else, and
  returns the code. Every code from 100000 to 999999 is the result of some draw.
\<close>

theorem generateOTP_six_digits:
  assumes "round_double r = r" and "0 \<le> r" and "r < 1"
  shows "(\<exists>n. 100000 \<le> n \<and> n \<le> 999999
           \<and> n = \<lfloor>plus_double 100000 (times_double r 900000)\<rfloor>
           \<and> fst (generateOTP r now u) = toString n
           \<and> length (toString n) = 6
           \<and> set (toString n) \<subseteq> set ''0123456789''
           \<and> hd (toString n) \<noteq> CHR ''0''
           \<and> snd (generateOTP r now u) = u\<lparr>otpCode := Some (toString n), otpExpiry := Some (now + 600000)\<rparr>)
       \<and> (\<forall>c. 100000 \<le> c \<and> c \<le> 999999 \<longrightarrow>
             (\<exists>r'. round_double r' = r' \<and> 0 \<le> r' \<and> r' < 1
                \<and> fst (generateOTP r' now u) = toString c))"
proof (intro conjI allI impI)
  let ?n = "\<lfloor>plus_double 100000 (times_double r 900000)\<rfloor>"
  from otp_number_range[OF assms] have rng: "100000 \<le> ?n" "?n \<le> 999999" .
  then have nn: "0 \<le> ?n" by simp
  have len: "length (toString ?n) = 6"
  proof -
    from rng have "100000 \<le> nat ?n" "nat ?n < 1000000" by linarith+
    then have "length (digits (nat ?n)) = 6" by (intro digits_length) simp_all
    with toString_nonneg[OF nn] show ?thesis by simp
  qed
  have dig: "set (toString ?n) \<subseteq> set ''0123456789''"
    using toString_nonneg[OF nn] digits_set[of "nat ?n"] by simp
  have hd: "hd (toString ?n) \<noteq> CHR ''0''"
  proof -
    from rng have "0 < nat ?n" by linarith
    then have "hd (digits (nat ?n)) \<noteq> CHR ''0''" by (rule digits_hd)
    with toString_nonneg[OF nn] show ?thesis by simp
  qed
  show "\<exists>n. 100000 \<le> n \<and> n \<le> 999999
           \<and> n = \<lfloor>plus_double 100000 (times_double r 900000)\<rfloor>
           \<and> fst (generateOTP r now u) = toString n
           \<and> length (toString n) = 6
           \<and> set (toString n) \<subseteq> set ''0123456789''
           \<and> hd (toString n) \<noteq> CHR ''0''
           \<and> snd (generateOTP r now u) = u\<lparr>otpCode := Some (toString n), otpExpiry := Some (now + 600000)\<rparr>"
    using rng len dig hd by (intro exI[of _ ?n]) (simp add: generateOTP_def Let_def)
next
  fix c :: int
  assume "100000 \<le> c \<and> c \<le> 999999"
  then have "\<exists>r'. round_double r' = r' \<and> 0 \<le> r' \<and> r' < 1
           \<and> \<lfloor>plus_double 100000 (times_double r' 900000)\<rfloor> = c"
    by (intro every_code_is_drawn) simp_all
  then show "\<exists>r'. round_double r' = r' \<and> 0 \<le> r' \<and> r' < 1
                \<and> fst (generateOTP r' now u) = toString c"
    by (auto simp: generateOTP_def Let_def)
qed

text \<open>The draw 1/2 at time 1000 gives the code 550000, expiring at 601000.\<close>

theorem generateOTP_six_digits_witness:
  "round_double (1 / 2) = 1 / 2 \<and> (0::real) \<le> 1 / 2 \<and> (1 / 2 :: real) < 1
   \<and> fst (generateOTP (1 / 2) 1000 sample_user) = ''550000''
   \<and> otpCode (snd (generateOTP (1 / 2) 1000 sample_user)) = Some ''550000''
   \<and> otpExpiry (snd (generateOTP (1 / 2) 1000 sample_user)) = Some 601000"
  using generateOTP_six_digits[of "1 / 2" 1000 sample_user]
  by (simp add: double_half otp_number_half generateOTP_def Let_def toString_def digitChar_def
      sample_user_def)

text \<open>
  Claim C4 as stated fails: no draw yields the code 000000, so the codes do not range over
  000000 to 999999.
\<close>

theorem generateOTP_never_zero_padded:
  "\<not> (\<exists>r now u. round_double r = r \<and> 0 \<le> r \<and> r < 1 \<and> fst (generateOTP r now u) = ''000000'')"
proof
  assume "\<exists>r now u. round_double r = r \<and> 0 \<le> r \<and> r < 1 \<and> fst (generateOTP r now u) = ''000000''"
  then obtain r :: real and now u where r: "round_double r = r" "0 \<le> r" "r < 1"
    and z: "fst (generateOTP r now u) = ''000000''" by blast
  let ?n = "\<lfloor>plus_double 100000 (times_double r 900000)\<rfloor>"
  from otp_number_range[OF r] have pos: "0 < nat ?n" by linarith
  from z pos have "digits (nat ?n) = ''000000''"
    by (simp add: generateOTP_def Let_def toString_def)
  with digits_hd[OF pos] show False by simp
qed

text \<open>
  Claim C7. \<^verbatim>\<open>verifyOTP\<close> answers true exactly when the stored code equals the supplied one
  and the current time is before the stored expiry, and it leaves the user, the stored
  code and expiry included, as it was, on failure as on success. A code generated at time
  \<open>t\<close> verifies at every time from \<open>t\<close> up to, but not including, \<open>t\<close> plus ten minutes,
  and fails from then on.
\<close>

theorem verifyOTP_iff:
  "(fst (verifyOTP u otp now) \<longleftrightarrow> otpCode u = otp \<and> (\<exists>e. otpExpiry u = Some e \<and> now < e))
   \<and> snd (verifyOTP u otp now) = u
   \<and> (0 \<le> r \<and> r < 1 \<and> t \<le> t' \<and> t' < t + 600000 \<longrightarrow>
        fst (verifyOTP (snd (generateOTP r t v)) (Some (fst (generateOTP r t v))) t'))
   \<and> (t + 600000 \<le> t' \<longrightarrow>
        \<not> fst (verifyOTP (snd (generateOTP r t v)) (Some (fst (generateOTP r t v))) t'))"
  by (auto simp: verifyOTP_def generateOTP_def Let_def split: option.splits)

text \<open>
  The code 550000 issued at time 1000 verifies at once, fails at 601000, and a wrong code
  fails and leaves the user unchanged.
\<close>

theorem verifyOTP_iff_witness:
  "fst (verifyOTP (snd (generateOTP (1 / 2) 1000 sample_user)) (Some ''550000'') 1000)
   \<and> \<not> fst (verifyOTP (snd (generateOTP (1 / 2) 1000 sample_user)) (Some ''550000'') 601000)
   \<and> \<not> fst (verifyOTP (snd (generateOTP (1 / 2) 1000 sample_user)) (Some ''123456'') 1000)
   \<and> snd (verifyOTP (snd (generateOTP (1 / 2) 1000 sample_user)) (Some ''123456'') 1000)
       = snd (generateOTP (1 / 2) 1000 sample_user)"
  using verifyOTP_iff[where u = "snd (generateOTP (1 / 2) 1000 sample_user)"
      and otp = "Some ''123456''" and now = 1000 and r = "1 / 2" and t = 1000 and t' = 1000
      and v = sample_user]
    verifyOTP_iff[where u = "snd (generateOTP (1 / 2) 1000 sample_user)"
      and otp = "Some ''550000''" and now = 1000 and r = "1 / 2" and t = 1000 and t' = 601000
      and v = sample_user]
  by (simp add: otp_number_half generateOTP_def Let_def toString_def digitChar_def
      sample_user_def)

section \<open>Address normalization\<close>

lemma digits_only_no_plus:
  "\<forall>c \<in> set s. \<not> nonDigit c \<Longrightarrow> \<not> startsWith s ''+''"
  by (cases s) (auto simp: startsWith_def nonDigit_def)

text \<open>
  Claim C8. For every non-empty source address, \<^verbatim>\<open>formatPhoneNumber\<close> keeps exactly its
  digits, in order, puts the country calling code 91 before them when there are exactly
  ten, and puts \<open>+\<close> in front; the ten-digit address 9876543210 becomes +919876543210.
\<close>

theorem formatPhoneNumber_canonical:
  "(p \<noteq> [] \<longrightarrow>
      formatPhoneNumber (Some p) =
        Some (CHR ''+'' #
          (if length (filter (\<lambda>c. c \<in> set ''0123456789'') p) = 10
           then ''91'' @ filter (\<lambda>c. c \<in> set ''0123456789'') p
           else filter (\<lambda>c. c \<in> set ''0123456789'') p)))
   \<and> formatPhoneNumber (Some ''9876543210'') = Some ''+919876543210''"
proof (intro conjI impI)
  let ?ds = "filter (\<lambda>c. \<not> nonDigit c) p"
  have eq: "filter (\<lambda>c. c \<in> set ''0123456789'') p = ?ds"
    by (simp add: nonDigit_def)
  have a: "\<not> startsWith ?ds ''+''" by (rule digits_only_no_plus) simp
  have b: "\<not> startsWith (''91'' @ ?ds) ''+''" by (simp add: startsWith_def)
  assume "p \<noteq> []"
  then show "formatPhoneNumber (Some p) =
        Some (CHR ''+'' #
          (if length (filter (\<lambda>c. c \<in> set ''0123456789'') p) = 10
           then ''91'' @ filter (\<lambda>c. c \<in> set ''0123456789'') p
           else filter (\<lambda>c. c \<in> set ''0123456789'') p))"
    unfolding eq using a b by (simp add: formatPhoneNumber_def truthy_str_def Let_def)
next
  show "formatPhoneNumber (Some ''9876543210'') = Some ''+919876543210''"
    by (simp add: formatPhoneNumber_def truthy_str_def Let_def nonDigit_def startsWith_def)
qed

text \<open>Spaces and punctuation are removed; eleven digits get no country code.\<close>

theorem formatPhoneNumber_canonical_witness:
  "''98765 43210'' \<noteq> [] \<and> formatPhoneNumber (Some ''98765 43210'') = Some ''+919876543210''
   \<and> formatPhoneNumber (Some ''+1 (202) 555-0100'') = Some ''+12025550100''"
  using formatPhoneNumber_canonical[of "''98765 43210''"]
    formatPhoneNumber_canonical[of "''+1 (202) 555-0100''"]
  by simp

section \<open>One burst\<close>

lemma loop_3: "sendTripleSMS_loop cl e msg phone mt 3 = []"
  by (subst sendTripleSMS_loop.simps) simp

lemma loop_2:
  "sendTripleSMS_loop cl e msg phone mt 2 =
     [Gateway_call mt 2 \<lparr>sms_body = msg, sms_from = TWILIO_PHONE_NUMBER e, sms_to = phone\<rparr>]"
  by (subst sendTripleSMS_loop.simps) (simp add: loop_3 split: gateway_result.splits)

lemma loop_1:
  "sendTripleSMS_loop cl e msg phone mt 1 =
     Gateway_call mt 1 \<lparr>sms_body = msg, sms_from = TWILIO_PHONE_NUMBER e, sms_to = phone\<rparr> #
     (case cl mt 1 \<lparr>sms_body = msg, sms_from = TWILIO_PHONE_NUMBER e, sms_to = phone\<rparr> of
        Sid s \<Rightarrow> [Wait 2000] | Throws err \<Rightarrow> []) @
     [Gateway_call mt 2 \<lparr>sms_body = msg, sms_from = TWILIO_PHONE_NUMBER e, sms_to = phone\<rparr>]"
  by (subst sendTripleSMS_loop.simps)
    (simp del: One_nat_def add: loop_2 split: gateway_result.splits)

lemma burst_unfold:
  "sendTripleSMS cl e msg phone mt =
     Gateway_call mt 0 \<lparr>sms_body = msg, sms_from = TWILIO_PHONE_NUMBER e, sms_to = phone\<rparr> #
     (case cl mt 0 \<lparr>sms_body = msg, sms_from = TWILIO_PHONE_NUMBER e, sms_to = phone\<rparr> of
        Sid s \<Rightarrow> [Wait 2000] | Throws err \<Rightarrow> []) @
     Gateway_call mt 1 \<lparr>sms_body = msg, sms_from = TWILIO_PHONE_NUMBER e, sms_to = phone\<rparr> #
     (case cl mt 1 \<lparr>sms_body = msg, sms_from = TWILIO_PHONE_NUMBER e, sms_to = phone\<rparr> of
        Sid s \<Rightarrow> [Wait 2000] | Throws err \<Rightarrow> []) @
     [Gateway_call mt 2 \<lparr>sms_body = msg, sms_from = TWILIO_PHONE_NUMBER e, sms_to = phone\<rparr>]"
  unfolding sendTripleSMS_def
  by (subst sendTripleSMS_loop.simps)
    (simp del: One_nat_def add: loop_1 split: gateway_result.splits)

lemma burst_events: "ev \<in> set (sendTripleSMS cl e msg phone mt) \<Longrightarrow> is_call ev \<or> is_wait ev"
  by (auto simp: burst_unfold split: gateway_result.splits)

lemma call_targets_append [simp]: "call_targets (xs @ ys) = call_targets xs @ call_targets ys"
  by (induction xs rule: call_targets.induct) auto


lemma burst_calls: "length (filter is_call (sendTripleSMS cl e msg phone mt)) = 3"
  by (simp add: burst_unfold split: gateway_result.splits)


text \<open>
  Claim C6, at a gateway that throws on the first attempt of a burst, and at one that
  throws on every attempt. The three attempts are made, with the same message; but the
  two-second timer follows only an attempt that succeeded, so the attempt after a failed
  one is issued at once.
\<close>

theorem failed_attempt_skips_the_gap:
  "sendTripleSMS (client tw_first_fails sample_env) sample_env (baseMessage None sample_time)
      (Some ''+919876543210'') ''Police'' =
     [Gateway_call ''Police'' 0 (sample_sms (Some ''+15550100'') ''+919876543210''),
      Gateway_call ''Police'' 1 (sample_sms (Some ''+15550100'') ''+919876543210''),
      Wait 2000,
      Gateway_call ''Police'' 2 (sample_sms (Some ''+15550100'') ''+919876543210'')]
   \<and> sendTripleSMS (client tw_down sample_env) sample_env (baseMessage None sample_time)
      (Some ''+919876543210'') ''Police'' =
     [Gateway_call ''Police'' 0 (sample_sms (Some ''+15550100'') ''+919876543210''),
      Gateway_call ''Police'' 1 (sample_sms (Some ''+15550100'') ''+919876543210''),
      Gateway_call ''Police'' 2 (sample_sms (Some ''+15550100'') ''+919876543210'')]"
  by (simp add: burst_unfold client_def tw_first_fails_def tw_down_def sample_env_def sample_sms_def)

section \<open>Interleaved bursts\<close>

lemma mset_concat_update:
  assumes "k < length qs" "qs ! k = x # xs"
  shows "mset (concat qs) = add_mset x (mset (concat (qs[k := xs])))"
proof -
  from assms have "qs = take k qs @ (x # xs) # drop (Suc k) qs"
    by (metis id_take_nth_drop)
  moreover from assms have "qs[k := xs] = take k qs @ xs # drop (Suc k) qs"
    by (simp add: upd_conv_take_nth_drop)
  ultimately have "mset (concat qs) = mset (concat (take k qs @ (x # xs) # drop (Suc k) qs))"
    and "mset (concat (qs[k := xs])) = mset (concat (take k qs @ xs # drop (Suc k) qs))"
    by simp_all
  then show ?thesis by simp
qed

lemma mset_interleave: "mset (interleave sched qs) = mset (concat qs)"
proof (induction sched arbitrary: qs)
  case Nil
  then show ?case by simp
next
  case (Cons k ks)
  show ?case
  proof (cases "k < length qs")
    case False
    with Cons show ?thesis by simp
  next
    case True
    show ?thesis
    proof (cases "qs ! k")
      case Nil
      with True Cons show ?thesis by simp
    next
      case (Cons x xs)
      with True Cons.IH[of "qs[k := xs]"] mset_concat_update[OF True Cons]
      show ?thesis by simp
    qed
  qed
qed

lemma set_interleave: "set (interleave sched qs) = set (concat qs)"
  using mset_interleave[of sched qs] by (rule mset_eq_setD)

lemma filter_interleave:
  "length (filter P (interleave sched qs)) = length (filter P (concat qs))"
proof -
  have "mset (filter P (interleave sched qs)) = mset (filter P (concat qs))"
    by (simp only: mset_filter mset_interleave)
  then show ?thesis by (rule mset_eq_length)
qed



section \<open>The trace of a trigger\<close>

lemma trigger_accepted:
  "db_accepts (new_SOSLog now new_id usr body) \<Longrightarrow>
     trigger tw e db_accepts sched now ct new_id usr body store =
       (store @ [new_SOSLog now new_id usr body],
        Persisted (new_SOSLog now new_id usr body) #
        interleave sched (sendSOSAlerts tw e usr (body_location body) ct) @
        [Respond (Success new_id (timestamp (new_SOSLog now new_id usr body)))])"
  by (simp add: trigger_def Let_def new_SOSLog_def)

lemma trigger_rejected:
  "\<not> db_accepts (new_SOSLog now new_id usr body) \<Longrightarrow>
     trigger tw e db_accepts sched now ct new_id usr body store = (store, [Respond Failure_500])"
  by (simp add: trigger_def Let_def)

lemma alerts_events:
  "ev \<in> set (concat (sendSOSAlerts tw e usr loc ct)) \<Longrightarrow> is_call ev \<or> is_wait ev"
  by (auto simp: sendSOSAlerts_def Let_def dest: burst_events split: if_splits)

lemma alerts_calls:
  "length (filter is_call (concat (sendSOSAlerts tw e usr loc ct))) =
     3 * length (sendSOSAlerts tw e usr loc ct)"
  by (simp add: sendSOSAlerts_def Let_def burst_calls)

lemma alerts_nonempty: "1 \<le> length (sendSOSAlerts tw e usr loc ct)"
  by (simp add: sendSOSAlerts_def Let_def)




lemma no_sends_after_last_response:
  "(\<forall>ev \<in> set xs. \<not> is_respond ev) \<Longrightarrow> \<not> sends_after_response (xs @ [Respond r])"
  by (induction xs) auto

lemma call_or_wait_not_respond: "is_call ev \<or> is_wait ev \<Longrightarrow> \<not> is_respond ev"
  by (cases ev) auto

lemma sample_log_eq: "new_SOSLog 5000 ''id1'' sample_user sample_body = sample_log"
  by (simp add: new_SOSLog_def sample_user_def sample_body_def sample_log_def)

lemma sample_bursts:
  "sendSOSAlerts tw e sample_user None sample_time =
     [sendTripleSMS (client tw e) e (baseMessage None sample_time) (Some ''+919876543210'') ''Police'',
      sendTripleSMS (client tw e) e (baseMessage None sample_time) (Some ''+919812345678'') ''User Confirmation'']"
  by (simp add: sendSOSAlerts_def Let_def sample_user_def policeNumber_def truthy_str_def
      formatPhoneNumber_def nonDigit_def startsWith_def)

lemma sample_trigger:
  "trigger tw e accept_all sched 5000 sample_time ''id1'' sample_user sample_body [] =
     ([sample_log],
      Persisted sample_log #
      interleave sched
        [sendTripleSMS (client tw e) e (baseMessage None sample_time) (Some ''+919876543210'') ''Police'',
         sendTripleSMS (client tw e) e (baseMessage None sample_time) (Some ''+919812345678'') ''User Confirmation''] @
      [Respond (Success ''id1'' (Client_value (JStr ''2020-01-01T00:00:00.000Z'')))])"
proof -
  have "accept_all (new_SOSLog 5000 ''id1'' sample_user sample_body)" by (simp add: accept_all_def)
  then have "trigger tw e accept_all sched 5000 sample_time ''id1'' sample_user sample_body [] =
       ([] @ [new_SOSLog 5000 ''id1'' sample_user sample_body],
        Persisted (new_SOSLog 5000 ''id1'' sample_user sample_body) #
        interleave sched (sendSOSAlerts tw e sample_user (body_location sample_body) sample_time) @
        [Respond (Success ''id1'' (timestamp (new_SOSLog 5000 ''id1'' sample_user sample_body)))])"
    by (rule trigger_accepted)
  moreover have "body_location sample_body = None" by (simp add: sample_body_def)
  moreover have "timestamp sample_log = Client_value (JStr ''2020-01-01T00:00:00.000Z'')"
    by (simp add: sample_log_def)
  ultimately show ?thesis by (simp add: sample_log_eq sample_bursts)
qed

lemma sample_burst_ok:
  "sendTripleSMS (client tw_ok sample_env) sample_env (baseMessage None sample_time) (Some d) mt =
     [Gateway_call mt 0 (sample_sms (Some ''+15550100'') d), Wait 2000,
      Gateway_call mt 1 (sample_sms (Some ''+15550100'') d), Wait 2000,
      Gateway_call mt 2 (sample_sms (Some ''+15550100'') d)]"
  by (simp add: burst_unfold client_def tw_ok_def sample_env_def sample_sms_def)

lemma sample_calls:
  "length (filter is_call
     (snd (trigger tw e accept_all sched 5000 sample_time ''id1'' sample_user sample_body []))) = 6"
  by (simp add: sample_trigger filter_interleave burst_calls)

text \<open>
  Claim C1, as amended. When the store accepts the record, the trigger handler persists it,
  then lets every burst run to its end, and only then responds: in every interleaving the
  trace is the record's persistence, then the gateway calls and timers of the bursts (three
  calls for each of at least one burst), then the response. No gateway call follows the
  response. The response is the success answer with the record's identifier and trigger
  time whatever the gateway did.
\<close>

theorem trigger_responds_after_all_sends:
  assumes "db_accepts (new_SOSLog now new_id usr body)"
  shows "\<exists>mid. snd (trigger tw e db_accepts sched now ct new_id usr body store) =
             Persisted (new_SOSLog now new_id usr body) # mid @
             [Respond (Success new_id (timestamp (new_SOSLog now new_id usr body)))]
           \<and> (\<forall>ev \<in> set mid. is_call ev \<or> is_wait ev)
           \<and> length (filter is_call mid) = 3 * length (sendSOSAlerts tw e usr (body_location body) ct)
           \<and> 1 \<le> length (sendSOSAlerts tw e usr (body_location body) ct)
           \<and> \<not> sends_after_response (snd (trigger tw e db_accepts sched now ct new_id usr body store))
           \<and> fst (trigger tw e db_accepts sched now ct new_id usr body store) =
               store @ [new_SOSLog now new_id usr body]"
proof -
  let ?mid = "interleave sched (sendSOSAlerts tw e usr (body_location body) ct)"
  let ?log = "new_SOSLog now new_id usr body"
  have shape: "trigger tw e db_accepts sched now ct new_id usr body store =
      (store @ [?log], Persisted ?log # ?mid @ [Respond (Success new_id (timestamp ?log))])"
    using assms by (rule trigger_accepted)
  have ev: "\<forall>ev \<in> set ?mid. is_call ev \<or> is_wait ev"
    using alerts_events by (simp only: set_interleave) blast
  have cnt: "length (filter is_call ?mid) = 3 * length (sendSOSAlerts tw e usr (body_location body) ct)"
    by (simp only: filter_interleave alerts_calls)
  have "\<forall>ev \<in> set (Persisted ?log # ?mid). \<not> is_respond ev"
    using ev call_or_wait_not_respond by auto
  then have "\<not> sends_after_response ((Persisted ?log # ?mid) @ [Respond (Success new_id (timestamp ?log))])"
    by (rule no_sends_after_last_response)
  then have nsr: "\<not> sends_after_response (snd (trigger tw e db_accepts sched now ct new_id usr body store))"
    by (simp add: shape)
  show ?thesis
    using ev cnt nsr alerts_nonempty[of tw e usr "body_location body" ct]
    by (intro exI[of _ ?mid]) (simp add: shape)
qed

text \<open>The sample alert: six calls, all before the response, which is the last event.\<close>

theorem trigger_responds_after_all_sends_witness:
  "accept_all (new_SOSLog 5000 ''id1'' sample_user sample_body)
   \<and> last (snd (trigger tw_ok sample_env accept_all [0, 1, 0, 1] 5000 sample_time ''id1''
                  sample_user sample_body []))
       = Respond (Success ''id1'' (Client_value (JStr ''2020-01-01T00:00:00.000Z'')))
   \<and> length (filter is_call (butlast (snd (trigger tw_ok sample_env accept_all [0, 1, 0, 1] 5000
                  sample_time ''id1'' sample_user sample_body [])))) = 6
   \<and> \<not> sends_after_response (snd (trigger tw_ok sample_env accept_all [0, 1, 0, 1] 5000
                  sample_time ''id1'' sample_user sample_body []))"
  using trigger_responds_after_all_sends[of accept_all 5000 "''id1''" sample_user sample_body
      tw_ok sample_env "[0, 1, 0, 1]" sample_time "[]"]
  by (simp add: accept_all_def sample_trigger sample_burst_ok)

text \<open>
  Claim C1 as stated fails: on the sample alert, with a gateway that delivers everything,
  the response is the last event of the trace, after the third call of both bursts; no
  send is still to come when the caller is answered.
\<close>

theorem trigger_response_is_last:
  "snd (trigger tw_ok sample_env accept_all [0, 1, 0, 1, 0, 1, 0, 1, 0, 1] 5000 sample_time ''id1''
          sample_user sample_body []) =
     [Persisted sample_log,
      Gateway_call ''Police'' 0 (sample_sms (Some ''+15550100'') ''+919876543210''),
      Gateway_call ''User Confirmation'' 0 (sample_sms (Some ''+15550100'') ''+919812345678''),
      Wait 2000,
      Wait 2000,
      Gateway_call ''Police'' 1 (sample_sms (Some ''+15550100'') ''+919876543210''),
      Gateway_call ''User Confirmation'' 1 (sample_sms (Some ''+15550100'') ''+919812345678''),
      Wait 2000,
      Wait 2000,
      Gateway_call ''Police'' 2 (sample_sms (Some ''+15550100'') ''+919876543210''),
      Gateway_call ''User Confirmation'' 2 (sample_sms (Some ''+15550100'') ''+919812345678''),
      Respond (Success ''id1'' (Client_value (JStr ''2020-01-01T00:00:00.000Z'')))]
   \<and> \<not> sends_after_response
         (snd (trigger tw_ok sample_env accept_all [0, 1, 0, 1, 0, 1, 0, 1, 0, 1] 5000 sample_time ''id1''
                 sample_user sample_body []))"
  by (simp add: sample_trigger sample_burst_ok)

text \<open>
  Claim C5. In every trace of the trigger handler, a gateway call is preceded by the
  persistence of the alert record, and the record is then in the store; when the store
  rejects the record, the store is unchanged and no gateway call is made at all.
\<close>

theorem record_persisted_before_any_send:
  "(\<forall>pre ev post.
      snd (trigger tw e db_accepts sched now ct new_id usr body store) = pre @ ev # post \<and> is_call ev
      \<longrightarrow> Persisted (new_SOSLog now new_id usr body) \<in> set pre
          \<and> new_SOSLog now new_id usr body \<in> set (fst (trigger tw e db_accepts sched now ct new_id usr body store)))
   \<and> (\<not> db_accepts (new_SOSLog now new_id usr body) \<longrightarrow>
        fst (trigger tw e db_accepts sched now ct new_id usr body store) = store
        \<and> \<not> list_ex is_call (snd (trigger tw e db_accepts sched now ct new_id usr body store)))"
proof (cases "db_accepts (new_SOSLog now new_id usr body)")
  case True
  then have shape: "trigger tw e db_accepts sched now ct new_id usr body store =
      (store @ [new_SOSLog now new_id usr body],
       Persisted (new_SOSLog now new_id usr body) #
       interleave sched (sendSOSAlerts tw e usr (body_location body) ct) @
       [Respond (Success new_id (timestamp (new_SOSLog now new_id usr body)))])"
    by (rule trigger_accepted)
  show ?thesis
  proof (intro conjI allI impI)
    fix pre ev post
    assume a: "snd (trigger tw e db_accepts sched now ct new_id usr body store) = pre @ ev # post \<and> is_call ev"
    then have "pre \<noteq> []" by (cases pre) (auto simp: shape)
    with a show "Persisted (new_SOSLog now new_id usr body) \<in> set pre"
      by (cases pre) (auto simp: shape)
    show "new_SOSLog now new_id usr body \<in> set (fst (trigger tw e db_accepts sched now ct new_id usr body store))"
      by (simp add: shape)
  next
    assume "\<not> db_accepts (new_SOSLog now new_id usr body)"
    with True show "fst (trigger tw e db_accepts sched now ct new_id usr body store) = store" by simp
  next
    assume "\<not> db_accepts (new_SOSLog now new_id usr body)"
    with True show "\<not> list_ex is_call (snd (trigger tw e db_accepts sched now ct new_id usr body store))"
      by simp
  qed
next
  case False
  then have shape: "trigger tw e db_accepts sched now ct new_id usr body store = (store, [Respond Failure_500])"
    by (rule trigger_rejected)
  show ?thesis
    by (auto simp: shape Cons_eq_append_conv)
qed

text \<open>The sample alert: the first gateway call comes right after the persistence.\<close>

theorem record_persisted_before_any_send_witness:
  "snd (trigger tw_ok sample_env accept_all [] 5000 sample_time ''id1'' sample_user sample_body []) =
     [Persisted sample_log] @
     Gateway_call ''Police'' 0 (sample_sms (Some ''+15550100'') ''+919876543210'') #
     [Wait 2000,
      Gateway_call ''Police'' 1 (sample_sms (Some ''+15550100'') ''+919876543210''), Wait 2000,
      Gateway_call ''Police'' 2 (sample_sms (Some ''+15550100'') ''+919876543210''),
      Gateway_call ''User Confirmation'' 0 (sample_sms (Some ''+15550100'') ''+919812345678''), Wait 2000,
      Gateway_call ''User Confirmation'' 1 (sample_sms (Some ''+15550100'') ''+919812345678''), Wait 2000,
      Gateway_call ''User Confirmation'' 2 (sample_sms (Some ''+15550100'') ''+919812345678''),
      Respond (Success ''id1'' (Client_value (JStr ''2020-01-01T00:00:00.000Z'')))]
   \<and> is_call (Gateway_call ''Police'' 0 (sample_sms (Some ''+15550100'') ''+919876543210''))
   \<and> Persisted (new_SOSLog 5000 ''id1'' sample_user sample_body) \<in> set [Persisted sample_log]
   \<and> sample_log \<in> set (fst (trigger tw_ok sample_env accept_all [] 5000 sample_time ''id1'' sample_user sample_body []))"
  using record_persisted_before_any_send[of tw_ok sample_env accept_all "[]" 5000 sample_time "''id1''"
      sample_user sample_body "[]"]
  by (simp add: sample_trigger sample_burst_ok sample_log_eq)

text \<open>
  Claim C10. When the request body carries a truthy \<^verbatim>\<open>timestamp\<close>, the record's trigger
  time is that client-supplied value, whatever the server's clock reads; otherwise (no
  timestamp, or a falsy one) it is the server's current time. An accepted record is stored
  with that trigger time, and the response carries the same value.
\<close>

theorem trigger_time_is_client_supplied:
  "(truthy (body_timestamp body) \<longrightarrow>
      timestamp (new_SOSLog now new_id usr body) = Client_value (body_timestamp body))
   \<and> (\<not> truthy (body_timestamp body) \<longrightarrow> timestamp (new_SOSLog now new_id usr body) = Server_now now)
   \<and> (body_timestamp body = JUndefined \<longrightarrow> timestamp (new_SOSLog now new_id usr body) = Server_now now)
   \<and> (db_accepts (new_SOSLog now new_id usr body) \<longrightarrow>
        fst (trigger tw e db_accepts sched now ct new_id usr body store)
          = store @ [new_SOSLog now new_id usr body]
        \<and> last (snd (trigger tw e db_accepts sched now ct new_id usr body store))
          = Respond (Success new_id (timestamp (new_SOSLog now new_id usr body))))"
proof (intro conjI impI)
  assume "db_accepts (new_SOSLog now new_id usr body)"
  then have shape: "trigger tw e db_accepts sched now ct new_id usr body store =
      (store @ [new_SOSLog now new_id usr body],
       Persisted (new_SOSLog now new_id usr body) #
       interleave sched (sendSOSAlerts tw e usr (body_location body) ct) @
       [Respond (Success new_id (timestamp (new_SOSLog now new_id usr body)))])"
    by (rule trigger_accepted)
  show "fst (trigger tw e db_accepts sched now ct new_id usr body store)
          = store @ [new_SOSLog now new_id usr body]" by (simp add: shape)
  show "last (snd (trigger tw e db_accepts sched now ct new_id usr body store))
          = Respond (Success new_id (timestamp (new_SOSLog now new_id usr body)))"
    by (simp add: shape)
qed (simp_all add: new_SOSLog_def)

text \<open>
  The sample request carries a timestamp string, which is recorded and returned; the
  number 0 is falsy, and the server's clock is used.
\<close>

theorem trigger_time_is_client_supplied_witness:
  "truthy (body_timestamp sample_body)
   \<and> accept_all (new_SOSLog 5000 ''id1'' sample_user sample_body)
   \<and> timestamp (last (fst (trigger tw_ok sample_env accept_all [] 5000 sample_time ''id1''
        sample_user sample_body []))) = Client_value (JStr ''2020-01-01T00:00:00.000Z'')
   \<and> last (snd (trigger tw_ok sample_env accept_all [] 5000 sample_time ''id1'' sample_user sample_body []))
       = Respond (Success ''id1'' (Client_value (JStr ''2020-01-01T00:00:00.000Z'')))
   \<and> timestamp (new_SOSLog 5000 ''id1'' sample_user (sample_body\<lparr>body_timestamp := JNum 0\<rparr>))
       = Server_now 5000"
  using trigger_time_is_client_supplied[of sample_body 5000 "''id1''" sample_user accept_all
      tw_ok sample_env "[]" sample_time "[]"]
    trigger_time_is_client_supplied[of "sample_body\<lparr>body_timestamp := JNum 0\<rparr>" 5000 "''id1''" sample_user accept_all
      tw_ok sample_env "[]" sample_time "[]"]
  by (simp add: accept_all_def sample_body_def)



lemma calls_of_append [simp]: "calls_of mt (xs @ ys) = calls_of mt xs @ calls_of mt ys"
  by (induction xs rule: calls_of.induct) auto













text \<open>
  Claim C3, in an environment without \<^verbatim>\<open>TWILIO_ACCOUNT_SID\<close> and \<^verbatim>\<open>TWILIO_AUTH_TOKEN\<close>.
  The dispatcher does not look at the configuration: for the sample alert the gateway is
  called six times, three for each destination, whatever the library answers and in every
  interleaving; with a library that throws on every call, each error is caught.
\<close>

theorem gateway_called_without_credentials:
  "TWILIO_ACCOUNT_SID no_credentials = None \<and> TWILIO_AUTH_TOKEN no_credentials = None
   \<and> call_targets (snd (trigger tw_down no_credentials accept_all [0, 1, 0, 1, 0, 1] 5000 sample_time
         ''id1'' sample_user sample_body [])) =
       [Some ''+919876543210'', Some ''+919812345678'', Some ''+919876543210'',
        Some ''+919812345678'', Some ''+919876543210'', Some ''+919812345678'']
   \<and> (\<forall>tw sched. length (filter is_call
         (snd (trigger tw no_credentials accept_all sched 5000 sample_time ''id1'' sample_user
            sample_body []))) = 6)"
  by (simp add: sample_calls no_credentials_def)
    (simp add: sample_trigger burst_unfold client_def tw_down_def)

end
